theory Spec2Isabelle
  imports Main "HOL-Library.Word"
begin

section \<open>Event.h: events and the identifier counter\<close>

type_synonym event_id_t = "32 word"
type_synonym event_data_t = "32 word"

text \<open>
  \<^verbatim>\<open>struct Event { event_id_t id; event_data_t data; ... }\<close>. The field \<^verbatim>\<open>id\<close> is
  named \<open>ev_id\<close> here, since \<open>id\<close> is the identity function of HOL.
\<close>

record Event =
  ev_id :: event_id_t
  ev_data :: event_data_t

text \<open>
  \<^verbatim>\<open>static event_id_t counter_inc() { thread_local event_id_t counter = 0; return ++counter; }\<close>
  The counter is thread local: every thread has one of its own, zero when the thread first
  gets there. The state of all of them is a function from threads to 32-bit words;
  \<open>++counter\<close> wraps around at \<open>2 ^ 32\<close>, as unsigned arithmetic does.
\<close>

type_synonym thread = nat
type_synonym counters = "thread \<Rightarrow> event_id_t"

definition counters_init :: counters where
  "counters_init = (\<lambda>t. 0)"

definition counter_inc :: "thread \<Rightarrow> counters \<Rightarrow> event_id_t \<times> counters" where
  "counter_inc t cs = (cs t + 1, cs(t := cs t + 1))"

text \<open>The three constructors of \<^verbatim>\<open>Event\<close>.\<close>

definition Event_default :: "thread \<Rightarrow> counters \<Rightarrow> Event \<times> counters" where
  "Event_default t cs =
     (case counter_inc t cs of (i, cs') \<Rightarrow> (\<lparr>ev_id = i, ev_data = 0\<rparr>, cs'))"

definition Event_of_id :: "event_id_t \<Rightarrow> Event" where
  "Event_of_id i = \<lparr>ev_id = i, ev_data = 0\<rparr>"

definition Event_of_id_data :: "event_id_t \<Rightarrow> event_data_t \<Rightarrow> Event" where
  "Event_of_id_data i d = \<lparr>ev_id = i, ev_data = d\<rparr>"

text \<open>\<^verbatim>\<open>operator==\<close> and \<^verbatim>\<open>operator<\<close> look at the id only.\<close>

definition event_eq :: "Event \<Rightarrow> Event \<Rightarrow> bool" where
  "event_eq a b = (ev_id a = ev_id b)"

definition event_less :: "Event \<Rightarrow> Event \<Rightarrow> bool" where
  "event_less a b = (ev_id a < ev_id b)"

text \<open>
  A run of the program that default-constructs one event after the other, the \<open>k\<close>-th of
  them on the thread \<open>ts ! k\<close>.
\<close>

fun construct :: "thread list \<Rightarrow> counters \<Rightarrow> Event list" where
  "construct [] cs = []"
| "construct (t # ts) cs =
     (case Event_default t cs of (e, cs') \<Rightarrow> e # construct ts cs')"


section \<open>Containers and errors shared by both headers\<close>

text \<open>
  Both transition tables are \<^verbatim>\<open>std::unordered_map\<close>s filled with \<^verbatim>\<open>insert\<close>. The map is an
  association list with at most one pair per key; \<^verbatim>\<open>insert\<close> of the standard library adds
  the pair only when the map has no element with the key, and leaves the map as it is
  otherwise. \<^verbatim>\<open>find\<close> is \<open>map_of\<close>.
\<close>

definition umap_insert :: "'k \<Rightarrow> 'v \<Rightarrow> ('k \<times> 'v) list \<Rightarrow> ('k \<times> 'v) list" where
  "umap_insert k v m = (if map_of m k = None then m @ [(k, v)] else m)"

text \<open>What a call can end with instead of returning.\<close>

datatype exn =
    EventQueueInterruptedException
  | NullPointer
  | SystemError
  | Terminate
  | BadRef

section \<open>Transition.h: the transition table and \<^verbatim>\<open>doTransition\<close>\<close>

text \<open>
  A state is known to this header by reference; the table hashes and compares it by its
  \<^verbatim>\<open>id\<close>, so a state is its id here. Actions and guards are \<^verbatim>\<open>std::function\<close>s of the
  event; what else they read or write is the embedder's data, of type \<open>'u\<close>.
\<close>

type_synonym state_id = nat

record 'u Transition =
  toState :: state_id
  action :: "(Event \<Rightarrow> 'u \<Rightarrow> 'u) option"
  guard :: "(Event \<Rightarrow> 'u \<Rightarrow> bool) option"

text \<open>
  Modelled from the spec: State.h and the machine \<^verbatim>\<open>FsmDef\<close> that \<^verbatim>\<open>doTransition\<close> works on are
  not among the sources. The spec gives a state the hooks \<^verbatim>\<open>onEntry(e)\<close> and \<^verbatim>\<open>onExit(e)\<close>,
  and the machine a current state that is nil before start. A hook call is written to a
  log, and so are the action call and the assignment, so that their order can be read off.
\<close>

datatype hook =
    onExit state_id Event
  | actionCall Event
  | setCurrentState state_id
  | onEntry state_id Event

record 'u Fsm =
  currentState :: "state_id option"
  fsm_data :: 'u
  fsm_log :: "hook list"

definition doTransition :: "'u Transition \<Rightarrow> 'u Fsm \<Rightarrow> Event \<Rightarrow> exn + (bool \<times> 'u Fsm)" where
  "doTransition t hsm e =
     (let result = (case guard t of None \<Rightarrow> False | Some g \<Rightarrow> g e (fsm_data hsm)) in
      if guard t = None \<or> result then
        (case currentState hsm of
           None \<Rightarrow> Inl NullPointer
         | Some cs \<Rightarrow>
             (let h1 = hsm\<lparr>fsm_log := fsm_log hsm @ [onExit cs e]\<rparr>;
                  h2 = (case action t of
                          None \<Rightarrow> h1
                        | Some a \<Rightarrow> h1\<lparr>fsm_data := a e (fsm_data h1),
                                       fsm_log := fsm_log h1 @ [actionCall e]\<rparr>);
                  h3 = h2\<lparr>currentState := Some (toState t),
                          fsm_log := fsm_log h2 @ [setCurrentState (toState t)]\<rparr>;
                  h4 = h3\<lparr>fsm_log := fsm_log h3 @ [onEntry (toState t) e]\<rparr>
              in Inr (True, h4)))
      else Inr (False, hsm))"

text \<open>
  \<^verbatim>\<open>StateTransitionTableT\<close>: the map \<^verbatim>\<open>data_\<close> keyed by the pair of state and event (compared
  by state id and event id) and the set \<^verbatim>\<open>eventSet_\<close> of events, ordered and compared by id.
  (A name cannot end with an underscore here: the members are \<open>tt_data\<close> and \<open>tt_eventSet\<close>.)
\<close>

record 'u StateTransitionTableT =
  tt_data :: "((state_id \<times> event_id_t) \<times> 'u Transition) list"
  tt_eventSet :: "event_id_t set"

definition tt_empty :: "'u StateTransitionTableT" where
  "tt_empty = \<lparr>tt_data = [], tt_eventSet = {}\<rparr>"

definition tt_next :: "'u StateTransitionTableT \<Rightarrow> state_id \<Rightarrow> Event \<Rightarrow> 'u Transition option" where
  "tt_next tbl fromState onEvent = map_of (tt_data tbl) (fromState, ev_id onEvent)"

definition tt_addTransition ::
  "state_id \<Rightarrow> Event \<Rightarrow> 'u Transition \<Rightarrow> 'u StateTransitionTableT \<Rightarrow> 'u StateTransitionTableT" where
  "tt_addTransition fromState onEvent t tbl =
     tbl\<lparr>tt_data := umap_insert (fromState, ev_id onEvent) t (tt_data tbl)\<rparr>"

definition tt_add ::
  "state_id \<Rightarrow> Event \<Rightarrow> state_id \<Rightarrow> (Event \<Rightarrow> 'u \<Rightarrow> 'u) option \<Rightarrow> (Event \<Rightarrow> 'u \<Rightarrow> bool) option \<Rightarrow>
   'u StateTransitionTableT \<Rightarrow> 'u StateTransitionTableT" where
  "tt_add fromState onEvent to a g tbl =
     (let t = \<lparr>toState = to, action = a, guard = g\<rparr>;
          tbl1 = tt_addTransition fromState onEvent t tbl
      in tbl1\<lparr>tt_eventSet := insert (ev_id onEvent) (tt_eventSet tbl1)\<rparr>)"

definition tt_getEvents :: "'u StateTransitionTableT \<Rightarrow> event_id_t set" where
  "tt_getEvents tbl = tt_eventSet tbl"


section \<open>tsm.h: \<^verbatim>\<open>StateMachine\<close> and \<^verbatim>\<open>OrthogonalHSM\<close>\<close>

text \<open>
  States are shared through pointers, and a state can be a machine of its own, so the
  objects live in a store: a \<open>ref\<close> is the address of a \<^verbatim>\<open>State\<close> object, and a
  \<^verbatim>\<open>shared_ptr<State>\<close> is a \<open>ref option\<close> (\<open>None\<close> for \<^verbatim>\<open>nullptr\<close>). Actions and guards are
  members of the derived machine without arguments; they read and write the embedder's
  data \<open>'u\<close>.
\<close>

type_synonym ref = nat

text \<open>
  \<^verbatim>\<open>TransitionT<State, Event, ActionFn, GuardFn>\<close>: the record that \<^verbatim>\<open>add\<close> builds from its
  five arguments.
\<close>

record 'u TransitionT =
  fromStateT :: "ref option"
  onEventT :: Event
  toStateT :: "ref option"
  actionT :: "('u \<Rightarrow> 'u) option"
  guardT :: "('u \<Rightarrow> bool) option"

text \<open>
  The members of \<^verbatim>\<open>StateMachine\<close> (\<^verbatim>\<open>interrupt_\<close>, \<^verbatim>\<open>currentState_\<close>, ...), with \<open>sm_\<close> in front
  instead of the underscore behind. The table is keyed by the pair of the state pointer and
  the event, which compares by id. \<open>sm_thread\<close> says whether \<^verbatim>\<open>smThread_\<close> is joinable. The
  queue \<^verbatim>\<open>eventQueue_\<close> is a reference to the one queue all machines share; it is part of
  the \<open>world\<close> below.
\<close>

record 'u StateMachine =
  sm_interrupt :: bool
  sm_currentState :: "ref option"
  sm_startState :: "ref option"
  sm_stopState :: "ref option"
  sm_table :: "((ref option \<times> event_id_t) \<times> 'u TransitionT) list"
  sm_parent :: "ref option"
  sm_thread :: bool
  sm_eventSet :: "event_id_t set"

definition StateMachine_new :: "ref option \<Rightarrow> ref option \<Rightarrow> ref option \<Rightarrow> 'u StateMachine" where
  "StateMachine_new startState stopState parent =
     \<lparr>sm_interrupt = False, sm_currentState = None, sm_startState = startState,
      sm_stopState = stopState, sm_table = [], sm_parent = parent, sm_thread = False,
      sm_eventSet = {}\<rparr>"

definition sm_next :: "'u StateMachine \<Rightarrow> ref option \<Rightarrow> Event \<Rightarrow> 'u TransitionT option" where
  "sm_next m fromState onEvent = map_of (sm_table m) (fromState, ev_id onEvent)"

definition sm_addTransition ::
  "ref option \<Rightarrow> Event \<Rightarrow> 'u TransitionT \<Rightarrow> 'u StateMachine \<Rightarrow> 'u StateMachine" where
  "sm_addTransition fromState onEvent t m =
     m\<lparr>sm_table := umap_insert (fromState, ev_id onEvent) t (sm_table m)\<rparr>"

definition sm_add ::
  "ref option \<Rightarrow> Event \<Rightarrow> ref option \<Rightarrow> ('u \<Rightarrow> 'u) option \<Rightarrow> ('u \<Rightarrow> bool) option \<Rightarrow>
   'u StateMachine \<Rightarrow> 'u StateMachine" where
  "sm_add fromState onEvent to a g m =
     (let t = \<lparr>fromStateT = fromState, onEventT = onEvent, toStateT = to, actionT = a,
               guardT = g\<rparr>;
          m1 = sm_addTransition fromState onEvent t m
      in m1\<lparr>sm_eventSet := insert (ev_id onEvent) (sm_eventSet m1)\<rparr>)"


text \<open>
  An object of the store is a plain state, a \<^verbatim>\<open>StateMachine\<close>, or an \<^verbatim>\<open>OrthogonalHSM\<close>, which is
  a \<^verbatim>\<open>StateMachine\<close> with the two pointers \<^verbatim>\<open>hsm1_\<close> and \<^verbatim>\<open>hsm2_\<close>.
\<close>

datatype 'u obj =
    Leaf
  | Machine "'u StateMachine"
  | Orthogonal "'u StateMachine" ref ref

text \<open>
  What a run leaves behind, in the order it happened: the hook calls on plain states, the
  lines the dispatcher logs, the assignment to \<^verbatim>\<open>currentState_\<close>, the call of an action and
  the start of the worker thread.
\<close>

datatype effect =
    Entered ref
  | Exited ref
  | Executed ref
  | Dequeued ref Event
  | CannotHandle ref Event
  | GuardPrevented ref
  | CurrentStateSet ref "ref option"
  | ActionCalled ref
  | ThreadStarted ref

record 'u world =
  heap :: "ref \<Rightarrow> 'u obj option"
  queue :: "Event list"
  stopped :: bool
  user :: 'u
  trace :: "effect list"

definition log :: "effect \<Rightarrow> 'u world \<Rightarrow> 'u world" where
  "log x w = w\<lparr>trace := trace w @ [x]\<rparr>"

text \<open>
  Modelled from the spec: EventQueue.h is not among the sources. By the spec, \<^verbatim>\<open>next()\<close>
  blocks until an event is available or the queue is stopped, and returns the head event
  or signals \<^emph>\<open>Interrupted\<close> (always, once the queue is stopped); \<^verbatim>\<open>addFront(e)\<close> prepends;
  \<^verbatim>\<open>stop()\<close> sets the stopped flag. A run is followed until it has to wait for a producer:
  \<open>WouldBlock\<close> on the empty queue.
\<close>

datatype 'u dequeue = Got Event "'u world" | Interrupted | WouldBlock

definition nextEvent :: "'u world \<Rightarrow> 'u dequeue" where
  "nextEvent w =
     (if stopped w then Interrupted
      else case queue w of [] \<Rightarrow> WouldBlock | e # es \<Rightarrow> Got e (w\<lparr>queue := es\<rparr>))"

definition addFront :: "Event \<Rightarrow> 'u world \<Rightarrow> 'u world" where
  "addFront e w = w\<lparr>queue := e # queue w\<rparr>"

definition addEvent :: "Event \<Rightarrow> 'u world \<Rightarrow> 'u world" where
  "addEvent e w = w\<lparr>queue := queue w @ [e]\<rparr>"

definition stop :: "'u world \<Rightarrow> 'u world" where
  "stop w = w\<lparr>stopped := True\<rparr>"

text \<open>
  A call returns, waits on the empty queue (and the callers with it), throws, or is cut
  off by the bound on the number of nested calls and loop iterations; each carries the
  world as it is at that point.
\<close>

datatype 'u outcome =
    Returned "'u world"
  | Blocked "'u world"
  | Raised exn "'u world"
  | OutOfFuel "'u world"

fun world_of :: "'u outcome \<Rightarrow> 'u world" where
  "world_of (Returned w) = w"
| "world_of (Blocked w) = w"
| "world_of (Raised x w) = w"
| "world_of (OutOfFuel w) = w"

definition then_do :: "'u outcome \<Rightarrow> ('u world \<Rightarrow> 'u outcome) \<Rightarrow> 'u outcome" where
  "then_do out f = (case out of Returned w \<Rightarrow> f w | _ \<Rightarrow> out)"

text \<open>Reading and writing the \<^verbatim>\<open>StateMachine\<close> members of the object at an address.\<close>

definition machine_of :: "'u obj \<Rightarrow> 'u StateMachine option" where
  "machine_of ob = (case ob of Leaf \<Rightarrow> None | Machine m \<Rightarrow> Some m | Orthogonal m a b \<Rightarrow> Some m)"

definition get_sm :: "'u world \<Rightarrow> ref \<Rightarrow> 'u StateMachine option" where
  "get_sm w r = (case heap w r of None \<Rightarrow> None | Some ob \<Rightarrow> machine_of ob)"

definition map_machine :: "('u StateMachine \<Rightarrow> 'u StateMachine) \<Rightarrow> 'u obj \<Rightarrow> 'u obj" where
  "map_machine f ob =
     (case ob of Leaf \<Rightarrow> Leaf | Machine m \<Rightarrow> Machine (f m)
      | Orthogonal m a b \<Rightarrow> Orthogonal (f m) a b)"

definition upd_sm :: "ref \<Rightarrow> ('u StateMachine \<Rightarrow> 'u StateMachine) \<Rightarrow> 'u world \<Rightarrow> 'u world" where
  "upd_sm r f w = w\<lparr>heap := (heap w)(r := map_option (map_machine f) (heap w r))\<rparr>"

text \<open>
  \<^verbatim>\<open>startHSM\<close>. Assigning a new \<^verbatim>\<open>std::thread\<close> to \<^verbatim>\<open>smThread_\<close> while it is joinable calls
  \<^verbatim>\<open>std::terminate\<close>. The worker runs \<^verbatim>\<open>execute\<close> on its own thread; here its start is
  recorded and \<^verbatim>\<open>execute\<close> is run by whoever asks for it.
\<close>

definition startHSM :: "ref \<Rightarrow> 'u world \<Rightarrow> 'u outcome" where
  "startHSM r w =
     (case get_sm w r of
        None \<Rightarrow> Raised BadRef w
      | Some m \<Rightarrow>
          (let w1 = upd_sm r (\<lambda>x. x\<lparr>sm_currentState := sm_startState x\<rparr>) w in
           if sm_parent m = None then
             (if sm_thread m then Raised Terminate w1
              else Returned (log (ThreadStarted r) (upd_sm r (\<lambda>x. x\<lparr>sm_thread := True\<rparr>) w1)))
           else Returned w1))"

text \<open>\<^verbatim>\<open>stopHSM\<close>. \<^verbatim>\<open>join\<close> on a thread that is not joinable throws \<^verbatim>\<open>std::system_error\<close>.\<close>

definition stopHSM :: "ref \<Rightarrow> 'u world \<Rightarrow> 'u outcome" where
  "stopHSM r w =
     (case get_sm w r of
        None \<Rightarrow> Raised BadRef w
      | Some m \<Rightarrow>
          (let w1 = upd_sm r (\<lambda>x. x\<lparr>sm_interrupt := True\<rparr>) w in
           if sm_parent m = None then
             (let w2 = stop w1 in
              if sm_thread m then Returned (upd_sm r (\<lambda>x. x\<lparr>sm_thread := False\<rparr>) w2)
              else Raised SystemError w2)
           else Returned w1))"

definition sm_OnEntry :: "ref \<Rightarrow> 'u world \<Rightarrow> 'u outcome" where
  "sm_OnEntry r w = startHSM r w"

definition sm_OnExit :: "ref \<Rightarrow> 'u world \<Rightarrow> 'u outcome" where
  "sm_OnExit r w = stopHSM r (upd_sm r (\<lambda>x. x\<lparr>sm_currentState := None\<rparr>) w)"

text \<open>
  The three virtual functions of \<^verbatim>\<open>State\<close>. A call through a pointer is resolved by the
  object at the address; \<open>rec\<close> stands for such a call in the definitions below.
\<close>

datatype call = OnEntry | OnExit | execute

type_synonym 'u vcall = "call \<Rightarrow> ref \<Rightarrow> 'u world \<Rightarrow> 'u outcome"

text \<open>
  Modelled from the spec: State.h is not among the sources. By the spec a plain state has
  the hooks entry, exit and execute, and the execute of a leaf does nothing; the call is
  recorded.
\<close>

definition leaf_call :: "call \<Rightarrow> ref \<Rightarrow> 'u world \<Rightarrow> 'u outcome" where
  "leaf_call c r w =
     Returned (log (case c of OnEntry \<Rightarrow> Entered r | OnExit \<Rightarrow> Exited r | execute \<Rightarrow> Executed r) w)"

text \<open>
  Modelled from the spec: the header with \<^verbatim>\<open>TransitionT\<close> that tsm.h was written against is
  not among the sources (the Transition.h above is a later one, with another signature).
  \<^verbatim>\<open>execute\<close> takes the action from \<^verbatim>\<open>t->doTransition()\<close> and does the assignment, the action
  and the nested execute itself; what the spec's transition has beyond these is the exit
  hook of the state left and the entry hook of the state entered, in this order.
\<close>

definition doTransitionT :: "'u vcall \<Rightarrow> 'u TransitionT \<Rightarrow> 'u world \<Rightarrow> 'u outcome" where
  "doTransitionT rec t w =
     (case fromStateT t of
        None \<Rightarrow> Raised NullPointer w
      | Some f \<Rightarrow>
          then_do (rec OnExit f w) (\<lambda>w1.
            case toStateT t of
              None \<Rightarrow> Raised NullPointer w1
            | Some g \<Rightarrow> rec OnEntry g w1))"

text \<open>
  \<^verbatim>\<open>StateMachine::execute\<close>, from the lookup on (lines 172 to 203): what one iteration does
  with the event \<open>e\<close> it has taken from the queue, and how the loop goes on. The loop
  \<^verbatim>\<open>while (!interrupt_) { ... }\<close> is the whole body of \<^verbatim>\<open>execute\<close>, so its next iteration is
  \<open>rec execute r\<close>.
\<close>

definition sm_handle :: "'u vcall \<Rightarrow> ref \<Rightarrow> 'u StateMachine \<Rightarrow> Event \<Rightarrow> 'u world \<Rightarrow> 'u outcome" where
  "sm_handle rec r m e w =
     (case sm_next m (sm_currentState m) e of
        None \<Rightarrow>
          (if sm_parent m \<noteq> None then Returned (addFront e w)
           else rec execute r (log (CannotHandle r e) w))
      | Some t \<Rightarrow>
          (let result = (case guardT t of None \<Rightarrow> False | Some g \<Rightarrow> g (user w)) in
           if guardT t = None \<or> result then
             then_do (doTransitionT rec t w) (\<lambda>w1.
               let w2 = log (CurrentStateSet r (toStateT t))
                          (upd_sm r (\<lambda>x. x\<lparr>sm_currentState := toStateT t\<rparr>) w1);
                   w3 = (case actionT t of
                           None \<Rightarrow> w2
                         | Some a \<Rightarrow> log (ActionCalled r) (w2\<lparr>user := a (user w2)\<rparr>))
               in case toStateT t of
                    None \<Rightarrow> Raised NullPointer w3
                  | Some s \<Rightarrow> then_do (rec execute s w3) (\<lambda>w4. rec execute r w4))
           else rec execute r (log (GuardPrevented r) w)))"

text \<open>
  \<^verbatim>\<open>StateMachine::execute\<close>, lines 147 to 170: the loop condition, the comparison with the
  stop state, the dequeue with its handler, and the log line that dereferences
  \<^verbatim>\<open>currentState_\<close>.
\<close>

definition sm_execute :: "'u vcall \<Rightarrow> ref \<Rightarrow> 'u world \<Rightarrow> 'u outcome" where
  "sm_execute rec r w =
     (case get_sm w r of
        None \<Rightarrow> Raised BadRef w
      | Some m \<Rightarrow>
          if sm_interrupt m then Returned w
          else if sm_currentState m = sm_stopState m
          then Returned (upd_sm r (\<lambda>x. x\<lparr>sm_interrupt := True\<rparr>) w)
          else
            (case nextEvent w of
               WouldBlock \<Rightarrow> Blocked w
             | Interrupted \<Rightarrow>
                 (if \<not> sm_interrupt m then Raised EventQueueInterruptedException w
                  else Returned w)
             | Got e w1 \<Rightarrow>
                 (case sm_currentState m of
                    None \<Rightarrow> Raised NullPointer w1
                  | Some cs \<Rightarrow> sm_handle rec r m e (log (Dequeued r e) w1))))"

text \<open>\<^verbatim>\<open>OrthogonalHSM\<close>: entry and exit go to the two machines first, then to the base class.\<close>

definition ortho_OnEntry :: "'u vcall \<Rightarrow> ref \<Rightarrow> ref \<Rightarrow> ref \<Rightarrow> 'u world \<Rightarrow> 'u outcome" where
  "ortho_OnEntry rec r hsm1 hsm2 w =
     then_do (rec OnEntry hsm1 w) (\<lambda>w1.
       then_do (rec OnEntry hsm2 w1) (\<lambda>w2. sm_OnEntry r w2))"

definition ortho_OnExit :: "'u vcall \<Rightarrow> ref \<Rightarrow> ref \<Rightarrow> ref \<Rightarrow> 'u world \<Rightarrow> 'u outcome" where
  "ortho_OnExit rec r hsm1 hsm2 w =
     then_do (rec OnExit hsm1 w) (\<lambda>w1.
       then_do (rec OnExit hsm2 w1) (\<lambda>w2. sm_OnExit r w2))"

text \<open>
  \<^verbatim>\<open>OrthogonalHSM::execute\<close>, lines 295 to 307: what the composite does with the event it has
  taken from the queue itself. Only the events of \<^verbatim>\<open>hsm1_\<close> are looked at.
\<close>

definition ortho_route :: "'u vcall \<Rightarrow> ref \<Rightarrow> ref \<Rightarrow> Event \<Rightarrow> 'u world \<Rightarrow> 'u outcome" where
  "ortho_route rec r hsm1 e w =
     (case (get_sm w hsm1, get_sm w r) of
        (Some a, Some m) \<Rightarrow>
          if ev_id e \<in> sm_eventSet a then rec execute r (addFront e w)
          else if sm_parent m \<noteq> None then Returned (addFront e w)
          else rec execute r (log (CannotHandle r e) w)
      | _ \<Rightarrow> Raised BadRef w)"

text \<open>\<^verbatim>\<open>OrthogonalHSM::execute\<close>, lines 279 to 294.\<close>

definition ortho_execute :: "'u vcall \<Rightarrow> ref \<Rightarrow> ref \<Rightarrow> ref \<Rightarrow> 'u world \<Rightarrow> 'u outcome" where
  "ortho_execute rec r hsm1 hsm2 w =
     (case get_sm w r of
        None \<Rightarrow> Raised BadRef w
      | Some m \<Rightarrow>
          if sm_interrupt m then Returned w
          else
            then_do (rec execute hsm1 w) (\<lambda>w1.
              then_do (rec execute hsm2 w1) (\<lambda>w2.
                case nextEvent w2 of
                  WouldBlock \<Rightarrow> Blocked w2
                | Interrupted \<Rightarrow>
                    (case get_sm w2 r of
                       None \<Rightarrow> Raised BadRef w2
                     | Some m2 \<Rightarrow>
                         if \<not> sm_interrupt m2 then Raised EventQueueInterruptedException w2
                         else Returned w2)
                | Got e w3 \<Rightarrow> ortho_route rec r hsm1 e w3)))"

text \<open>The virtual call, resolved by the object at the address.\<close>

definition dispatch :: "'u vcall \<Rightarrow> 'u vcall" where
  "dispatch rec c r w =
     (case heap w r of
        None \<Rightarrow> Raised BadRef w
      | Some Leaf \<Rightarrow> leaf_call c r w
      | Some (Machine m) \<Rightarrow>
          (case c of
             OnEntry \<Rightarrow> sm_OnEntry r w
           | OnExit \<Rightarrow> sm_OnExit r w
           | execute \<Rightarrow> sm_execute rec r w)
      | Some (Orthogonal m hsm1 hsm2) \<Rightarrow>
          (case c of
             OnEntry \<Rightarrow> ortho_OnEntry rec r hsm1 hsm2 w
           | OnExit \<Rightarrow> ortho_OnExit rec r hsm1 hsm2 w
           | execute \<Rightarrow> ortho_execute rec r hsm1 hsm2 w))"

text \<open>
  \<open>run n\<close> follows a call through at most \<open>n\<close> nested calls and loop iterations. The loop
  of \<^verbatim>\<open>OrthogonalHSM::execute\<close> need not end (an event that \<^verbatim>\<open>hsm1_\<close> knows but cannot take in
  its current state comes back to the front again and again), so there is no bound that
  would do for every world.
\<close>

fun run :: "nat \<Rightarrow> 'u vcall" where
  "run 0 c r w = OutOfFuel w"
| "run (Suc n) c r w = dispatch (run n) c r w"

text \<open>
  The invariant of claim C10: the current state of a machine is nil, its start state, or the
  target of an entry of its table.
\<close>

definition inv_sm :: "'u StateMachine \<Rightarrow> bool" where
  "inv_sm m =
     (sm_currentState m = None \<or> sm_currentState m = sm_startState m \<or>
      sm_currentState m \<in> set (map (\<lambda>kt. toStateT (snd kt)) (sm_table m)))"

text \<open>
  The same for the object at an address \<open>a\<close> of a world, together with what no call
  changes: whether the object is a machine at all (\<open>K\<close>), its table (\<open>T\<close>) and its start
  state (\<open>S\<close>).
\<close>

definition inv_with ::
  "ref \<Rightarrow> bool \<Rightarrow> ((ref option \<times> event_id_t) \<times> 'u TransitionT) list \<Rightarrow> ref option \<Rightarrow>
   'u world \<Rightarrow> bool" where
  "inv_with a K T S w =
     (case get_sm w a of
        None \<Rightarrow> \<not> K
      | Some m \<Rightarrow> K \<and> sm_table m = T \<and> sm_startState m = S \<and> inv_sm m)"


section \<open>Example machines\<close>

text \<open>
  A socket machine after the example that comes with tsm.h, cut down to four plain states:
  Closed (1, the start state), Ready (2), Open (3) and Done (4, the stop state). The machine
  itself is the object at address 0 and has no parent. Opening counts up the embedder's
  number; connecting is guarded by that number being more than one.
\<close>

definition ev_sock_open :: Event where
  "ev_sock_open = Event_of_id 1"

definition ev_connect :: Event where
  "ev_connect = Event_of_id 2"

definition ev_close :: Event where
  "ev_close = Event_of_id_data 3 7"

definition ev_other :: Event where
  "ev_other = Event_of_id_data 9 5"

definition socket_sm :: "nat StateMachine" where
  "socket_sm =
     sm_add (Some 3) ev_close (Some 4) None None
       (sm_add (Some 2) ev_connect (Some 3) None (Some (\<lambda>u. 1 < u))
         (sm_add (Some 1) ev_sock_open (Some 2) (Some Suc) None
           (StateMachine_new (Some 1) (Some 4) None)))"

definition socket_world :: "ref option \<Rightarrow> Event list \<Rightarrow> nat world" where
  "socket_world cur q =
     \<lparr>heap = (\<lambda>r. None)(0 \<mapsto> Machine (socket_sm\<lparr>sm_currentState := cur\<rparr>),
               1 \<mapsto> Leaf, 2 \<mapsto> Leaf, 3 \<mapsto> Leaf, 4 \<mapsto> Leaf),
      queue = q, stopped = False, user = 0, trace = []\<rparr>"

text \<open>
  A machine at address 0 with a plain state 1 and a state 5 that is a machine of its own,
  with 0 as its parent and the plain states 6 and 7.
\<close>

definition child_sm :: "nat StateMachine" where
  "child_sm =
     sm_add (Some 6) ev_connect (Some 7) None None (StateMachine_new (Some 6) None (Some 0))"

definition parent_sm :: "nat StateMachine" where
  "parent_sm =
     sm_add (Some 5) ev_close (Some 1) None None
       (sm_add (Some 1) ev_sock_open (Some 5) None None (StateMachine_new (Some 1) None None))"

definition nested_world :: "ref option \<Rightarrow> ref option \<Rightarrow> Event list \<Rightarrow> nat world" where
  "nested_world pcur ccur q =
     \<lparr>heap = (\<lambda>r. None)(0 \<mapsto> Machine (parent_sm\<lparr>sm_currentState := pcur\<rparr>), 1 \<mapsto> Leaf,
               5 \<mapsto> Machine (child_sm\<lparr>sm_currentState := ccur\<rparr>), 6 \<mapsto> Leaf, 7 \<mapsto> Leaf),
      queue = q, stopped = False, user = 0, trace = []\<rparr>"

text \<open>
  An \<^verbatim>\<open>OrthogonalHSM\<close> at address 0 without a parent, over the machine A at address 1 with
  the plain states 10 and 11 and the machine B at address 2 with the plain states 20 and
  21. Both tables have an entry for \<open>ev_close\<close>: A takes it in state 11, B in state 20.
\<close>

definition hsmA :: "nat StateMachine" where
  "hsmA =
     sm_add (Some 11) ev_close (Some 10) None None
       (sm_add (Some 10) ev_sock_open (Some 11) None None
         (StateMachine_new (Some 10) None (Some 0)))"

definition hsmB :: "nat StateMachine" where
  "hsmB =
     sm_add (Some 20) ev_close (Some 21) None None
       (sm_add (Some 20) ev_connect (Some 21) None None
         (StateMachine_new (Some 20) None (Some 0)))"

definition ortho_world :: "ref option \<Rightarrow> ref option \<Rightarrow> ref option \<Rightarrow> Event list \<Rightarrow> nat world" where
  "ortho_world parent acur bcur q =
     \<lparr>heap = (\<lambda>r. None)(0 \<mapsto> Orthogonal (StateMachine_new None None parent) 1 2,
               1 \<mapsto> Machine (hsmA\<lparr>sm_currentState := acur\<rparr>),
               2 \<mapsto> Machine (hsmB\<lparr>sm_currentState := bcur\<rparr>),
               10 \<mapsto> Leaf, 11 \<mapsto> Leaf, 20 \<mapsto> Leaf, 21 \<mapsto> Leaf),
      queue = q, stopped = False, user = 0, trace = []\<rparr>"

section \<open>Identifiers of default-constructed events\<close>


lemma construct_length: "length (construct ts cs) = length ts"
  by (induction ts arbitrary: cs) (auto simp: Event_default_def counter_inc_def)

lemma construct_id:
  "k < length ts \<Longrightarrow>
   ev_id (construct ts cs ! k) = cs (ts ! k) + of_nat (count_list (take (Suc k) ts) (ts ! k))"
proof (induction ts arbitrary: cs k)
  case Nil then show ?case by simp
next
  case (Cons t ts)
  show ?case
  proof (cases k)
    case 0 then show ?thesis by (simp add: Event_default_def counter_inc_def)
  next
    case (Suc k')
    with Cons.prems have "k' < length ts" by simp
    from Cons.IH[OF this] Suc show ?thesis
      by (simp add: Event_default_def counter_inc_def)
  qed
qed

lemma count_list_le_length: "count_list xs x \<le> length xs"
  by (induction xs) auto

lemma count_take_gap:
  assumes "i < j" "j < length ts" "ts ! j = t"
  shows "count_list (take (Suc j) ts) t = count_list (take (Suc i) ts) t + d \<Longrightarrow> 0 < d \<and> d \<le> j - i"
proof -
  assume eq: "count_list (take (Suc j) ts) t = count_list (take (Suc i) ts) t + d"
  let ?mid = "drop (Suc i) (take (Suc j) ts)"
  have "take (Suc i) (take (Suc j) ts) = take (Suc i) ts"
    using assms(1) by (simp add: min_def)
  then have split: "take (Suc j) ts = take (Suc i) ts @ ?mid"
    using append_take_drop_id [of "Suc i" "take (Suc j) ts"] by simp
  have "count_list (take (Suc j) ts) t = count_list (take (Suc i) ts) t + count_list ?mid t"
    by (subst split) (simp only: count_list_append)
  with eq have d: "d = count_list ?mid t" by simp
  have len: "length ?mid = j - i" using assms by simp
  have "?mid \<noteq> []" using assms len by auto
  have "last ?mid = t"
    using assms by (simp add: last_drop last_conv_nth take_Suc_conv_app_nth)
  then have "t \<in> set ?mid" using \<open>?mid \<noteq> []\<close> last_in_set [of ?mid] by simp
  then have "0 < count_list ?mid t" by (simp add: count_list_0_iff zero_less_iff_neq_zero)
  moreover have "count_list ?mid t \<le> j - i" using count_list_le_length[of ?mid t] len by simp
  ultimately show ?thesis using d by simp
qed

lemma word32_add_gap:
  fixes a :: "32 word"
  assumes "0 < d" "d < 2 ^ 32"
  shows "a + of_nat c \<noteq> a + of_nat (c + d)"
proof
  assume "a + of_nat c = a + of_nat (c + d)"
  then have "(of_nat d :: 32 word) = 0" by simp
  then have "take_bit 32 d = take_bit 32 (0::nat)"
    using word_of_nat_eq_iff[of d 0, where 'a=32] by simp
  then show False using assms by (simp add: take_bit_nat_eq_self)
qed


text \<open>
  Claim C8, as the code has it: two events default-constructed on the same thread receive
  distinct ids as long as fewer than \<open>2 ^ 32\<close> constructions lie between them, whatever
  the other threads construct in between. (Events of different threads draw from different
  counters, and a counter wraps around after \<open>2 ^ 32\<close> increments.)
\<close>

theorem default_ids_distinct:
  assumes "i < j" "j < length ts" "ts ! i = ts ! j" "j - i < 2 ^ 32"
  shows "ev_id (construct ts cs ! i) \<noteq> ev_id (construct ts cs ! j)"
proof -
  let ?t = "ts ! j"
  have "take (Suc i) (take (Suc j) ts) = take (Suc i) ts"
    using assms(1) by (simp add: min_def)
  then have "take (Suc j) ts = take (Suc i) ts @ drop (Suc i) (take (Suc j) ts)"
    using append_take_drop_id [of "Suc i" "take (Suc j) ts"] by simp
  then have "count_list (take (Suc j) ts) ?t =
      count_list (take (Suc i) ts) ?t + count_list (drop (Suc i) (take (Suc j) ts)) ?t"
    using count_list_append [of "take (Suc i) ts" "drop (Suc i) (take (Suc j) ts)" ?t] by simp
  then obtain d where d: "count_list (take (Suc j) ts) ?t = count_list (take (Suc i) ts) ?t + d"
    by blast
  from count_take_gap[OF assms(1,2) refl d] have "0 < d" "d \<le> j - i" by auto
  with assms(4) have "d < 2 ^ 32" by simp
  have "ev_id (construct ts cs ! i) = cs ?t + of_nat (count_list (take (Suc i) ts) ?t)"
    using construct_id[of i ts cs] assms by simp
  moreover have "ev_id (construct ts cs ! j) = cs ?t + of_nat (count_list (take (Suc i) ts) ?t + d)"
    using construct_id[of j ts cs] assms d by simp
  ultimately show ?thesis using word32_add_gap[OF \<open>0 < d\<close> \<open>d < 2 ^ 32\<close>] by simp
qed

theorem default_ids_distinct_witness:
  "ev_id (construct [0, 1, 0] counters_init ! 0) \<noteq> ev_id (construct [0, 1, 0] counters_init ! 2)"
  using default_ids_distinct [of 0 2 "[0, 1, 0]" counters_init] by simp

text \<open>
  Claim C8 as stated fails: the first event a thread default-constructs has id 1 on every
  thread, so two events of two threads share their id.
\<close>

theorem default_ids_counterexample:
  "ev_id (construct [0, 1] counters_init ! 0) = ev_id (construct [0, 1] counters_init ! 1)"
  by (simp add: Event_default_def counter_inc_def counters_init_def)

section \<open>One iteration of \<^verbatim>\<open>StateMachine::execute\<close>\<close>


lemma run_Machine_execute:
  "heap w r = Some (Machine m) \<Longrightarrow> run (Suc n) execute r w = sm_execute (run n) r w"
  by (simp add: dispatch_def)

lemma run_Leaf:
  "heap w r = Some Leaf \<Longrightarrow> run (Suc n) c r w = leaf_call c r w"
  by (simp add: dispatch_def)

lemma get_sm_Machine: "heap w r = Some (Machine m) \<Longrightarrow> get_sm w r = Some m"
  by (simp add: get_sm_def machine_of_def)

lemma get_sm_Orthogonal: "heap w r = Some (Orthogonal m a b) \<Longrightarrow> get_sm w r = Some m"
  by (simp add: get_sm_def machine_of_def)

lemma sm_execute_dequeue:
  assumes "get_sm w r = Some m" "\<not> sm_interrupt m" "sm_currentState m = Some cs"
    "sm_stopState m \<noteq> Some cs" "\<not> stopped w" "queue w = e # es"
  shows "sm_execute rec r w =
         sm_handle rec r m e (w\<lparr>queue := es, trace := trace w @ [Dequeued r e]\<rparr>)"
  using assms by (auto simp add: sm_execute_def nextEvent_def log_def)

lemma sm_execute_stop:
  assumes "get_sm w r = Some m" "\<not> sm_interrupt m" "sm_currentState m = sm_stopState m"
  shows "sm_execute rec r w = Returned (upd_sm r (\<lambda>x. x\<lparr>sm_interrupt := True\<rparr>) w)"
  using assms by (simp add: sm_execute_def)

lemma sm_execute_interrupted:
  assumes "get_sm w r = Some m" "sm_interrupt m"
  shows "sm_execute rec r w = Returned w"
  using assms by (simp add: sm_execute_def)

lemma get_sm_upd_sm_same:
  "get_sm w r = Some m \<Longrightarrow> get_sm (upd_sm r f w) r = Some (f m)"
  by (auto simp add: get_sm_def upd_sm_def machine_of_def map_machine_def split: option.splits obj.splits)

lemma get_sm_upd_sm_other:
  "a \<noteq> r \<Longrightarrow> get_sm (upd_sm r f w) a = get_sm w a"
  by (simp add: get_sm_def upd_sm_def)

lemma heap_upd_sm_Machine:
  "heap w r = Some (Machine m) \<Longrightarrow> heap (upd_sm r f w) r = Some (Machine (f m))"
  by (simp add: upd_sm_def map_machine_def)

lemma heap_upd_sm_other:
  "a \<noteq> r \<Longrightarrow> heap (upd_sm r f w) a = heap w a"
  by (simp add: upd_sm_def)

lemma upd_sm_fields [simp]:
  "queue (upd_sm r f w) = queue w" "stopped (upd_sm r f w) = stopped w"
  "user (upd_sm r f w) = user w" "trace (upd_sm r f w) = trace w"
  by (simp_all add: upd_sm_def)

lemma doTransitionT_leaf:
  assumes "fromStateT t = Some cs" "toStateT t = Some s"
    "heap w cs = Some Leaf" "heap w s = Some Leaf"
  shows "doTransitionT (run (Suc n)) t w = Returned (w\<lparr>trace := trace w @ [Exited cs, Entered s]\<rparr>)"
  using assms by (simp add: doTransitionT_def dispatch_def leaf_call_def then_do_def log_def)

lemma sm_iteration_leaf:
  assumes m: "heap w r = Some (Machine m)" and run: "\<not> sm_interrupt m"
    and cur: "sm_currentState m = Some cs" and nostop: "sm_stopState m \<noteq> Some cs"
    and q: "\<not> stopped w" "queue w = e # es"
    and hit: "sm_next m (Some cs) e = Some t"
    and g: "guardT t = None \<or> (\<exists>g. guardT t = Some g \<and> g (user w))"
    and ft: "fromStateT t = Some cs" "toStateT t = Some s"
    and leaf: "heap w cs = Some Leaf" "heap w s = Some Leaf"
  shows "run (Suc (Suc n)) execute r w =
         run (Suc n) execute r
           (w\<lparr>heap := (heap w)(r \<mapsto> Machine (m\<lparr>sm_currentState := Some s\<rparr>)),
              queue := es,
              user := (case actionT t of None \<Rightarrow> user w | Some a \<Rightarrow> a (user w)),
              trace := trace w @ [Dequeued r e, Exited cs, Entered s, CurrentStateSet r (Some s)] @
                       (case actionT t of None \<Rightarrow> [] | Some a \<Rightarrow> [ActionCalled r]) @
                       [Executed s]\<rparr>)"
proof -
  let ?w0 = "w\<lparr>queue := es, trace := trace w @ [Dequeued r e]\<rparr>"
  have rs: "r \<noteq> s" "r \<noteq> cs" using m leaf by auto
  have 1: "run (Suc (Suc n)) execute r w = sm_handle (run (Suc n)) r m e ?w0"
    using run_Machine_execute [OF m] sm_execute_dequeue [OF get_sm_Machine [OF m] run cur nostop q]
    by simp
  have dt: "doTransitionT (run (Suc n)) t ?w0 =
            Returned (?w0\<lparr>trace := trace ?w0 @ [Exited cs, Entered s]\<rparr>)"
    by (rule doTransitionT_leaf [OF ft]) (simp_all add: leaf)
  have ex: "run (Suc n) execute s w' = Returned (w'\<lparr>trace := trace w' @ [Executed s]\<rparr>)"
    if "heap w' s = Some Leaf" for w' :: "'a world"
    using run_Leaf [OF that] by (simp add: leaf_call_def log_def)
  have 2: "sm_handle (run (Suc n)) r m e ?w0 =
      run (Suc n) execute r
       (w\<lparr>queue := es,
          heap := (heap w)(r \<mapsto> Machine (m\<lparr>sm_currentState := Some s\<rparr>)),
          user := (case actionT t of None \<Rightarrow> user w | Some a \<Rightarrow> a (user w)),
          trace := trace w @ [Dequeued r e, Exited cs, Entered s, CurrentStateSet r (Some s)] @
                   (case actionT t of None \<Rightarrow> [] | Some a \<Rightarrow> [ActionCalled r]) @
                   [Executed s]\<rparr>)"
    using g hit cur ft leaf m rs
    by (cases "actionT t")
       (auto simp add: sm_handle_def dt then_do_def log_def upd_sm_def map_machine_def ex
          simp del: run.simps)
  show ?thesis unfolding 1 2
    by (rule arg_cong [where f = "run (Suc n) execute r"], rule world.equality) simp_all
qed

section \<open>The transition tables\<close>


lemma map_of_umap_insert:
  "map_of (umap_insert k v m) k' =
     (if k' = k \<and> map_of m k = None then Some v else map_of m k')"
  by (auto simp add: umap_insert_def map_of_append map_add_def split: option.splits)

lemma keys_umap_insert:
  "distinct (map fst m) \<Longrightarrow> distinct (map fst (umap_insert k v m))"
  by (auto simp add: umap_insert_def map_of_eq_None_iff)

text \<open>
  Claim C2, as the code has it: a key has at most one transition, and \<^verbatim>\<open>add\<close> with a key that
  the table already has (the same state and an event of the same id) leaves the table's
  entry alone, since \<^verbatim>\<open>insert\<close> does not replace. A lookup after the second \<^verbatim>\<open>add\<close> returns what
  it returned before; if the key was new to the first \<^verbatim>\<open>add\<close>, that is the first-declared
  target, action and guard. This holds for the table of Transition.h and for the one of
  tsm.h.
\<close>

theorem add_keeps_first_transition:
  assumes "ev_id e2 = ev_id e1"
  shows "tt_next (tt_add f e2 to2 a2 g2 (tt_add f e1 to1 a1 g1 tbl)) f e1 =
           tt_next (tt_add f e1 to1 a1 g1 tbl) f e1 \<and>
         (tt_next tbl f e1 = None \<longrightarrow>
            tt_next (tt_add f e2 to2 a2 g2 (tt_add f e1 to1 a1 g1 tbl)) f e1 =
              Some \<lparr>toState = to1, action = a1, guard = g1\<rparr>) \<and>
         (distinct (map fst (tt_data tbl)) \<longrightarrow>
            distinct (map fst (tt_data (tt_add f e1 to1 a1 g1 tbl)))) \<and>
         sm_next (sm_add p e2 q2 b2 h2 (sm_add p e1 q1 b1 h1 m)) p e1 =
           sm_next (sm_add p e1 q1 b1 h1 m) p e1 \<and>
         (sm_next m p e1 = None \<longrightarrow>
            sm_next (sm_add p e2 q2 b2 h2 (sm_add p e1 q1 b1 h1 m)) p e1 =
              Some \<lparr>fromStateT = p, onEventT = e1, toStateT = q1, actionT = b1, guardT = h1\<rparr>) \<and>
         (distinct (map fst (sm_table m)) \<longrightarrow>
            distinct (map fst (sm_table (sm_add p e1 q1 b1 h1 m))))"
  using assms
  by (simp add: tt_next_def tt_add_def tt_addTransition_def sm_next_def sm_add_def
      sm_addTransition_def Let_def map_of_umap_insert keys_umap_insert)

theorem add_keeps_first_transition_witness:
  "ev_id (Event_of_id_data 1 8) = ev_id ev_sock_open \<and>
   tt_next (tt_empty :: nat StateTransitionTableT) 1 ev_sock_open = None \<and>
   distinct (map fst (tt_data (tt_empty :: nat StateTransitionTableT))) \<and>
   sm_next (StateMachine_new (Some 1) None None :: nat StateMachine) (Some 1) ev_sock_open = None \<and>
   distinct (map fst (sm_table (StateMachine_new (Some 1) None None :: nat StateMachine))) \<and>
   tt_next (tt_add 1 (Event_of_id_data 1 8) 3 None None
              (tt_add 1 ev_sock_open 2 None None (tt_empty :: nat StateTransitionTableT)))
      1 ev_sock_open = Some \<lparr>toState = 2, action = None, guard = None\<rparr> \<and>
   sm_next (sm_add (Some 1) (Event_of_id_data 1 8) (Some 3) None None
              (sm_add (Some 1) ev_sock_open (Some 2) None None
                 (StateMachine_new (Some 1) None None :: nat StateMachine)))
      (Some 1) ev_sock_open =
     Some \<lparr>fromStateT = Some 1, onEventT = ev_sock_open, toStateT = Some 2, actionT = None,
           guardT = None\<rparr>"
  using add_keeps_first_transition
    [of "Event_of_id_data 1 8" ev_sock_open 1 3 None None 2 None None
        "tt_empty :: nat StateTransitionTableT" "Some 1" "Some 3" None None "Some 2" None None
        "StateMachine_new (Some 1) None None :: nat StateMachine"]
  by (simp add: Event_of_id_data_def Event_of_id_def ev_sock_open_def tt_empty_def tt_next_def
      tt_add_def tt_addTransition_def umap_insert_def sm_next_def sm_add_def
      sm_addTransition_def StateMachine_new_def)

text \<open>
  Claim C2 as stated fails: after declaring the transition from state 1 on \<open>ev_sock_open\<close>
  to state 2 and then to state 3, the lookup returns the target 2, in both tables.
\<close>

theorem add_overwrites_counterexample:
  "map_option toState
     (tt_next (tt_add 1 ev_sock_open 3 None None
                 (tt_add 1 ev_sock_open 2 None None (tt_empty :: nat StateTransitionTableT)))
        1 ev_sock_open) = Some 2 \<and>
   map_option toState
     (tt_next (tt_add 1 ev_sock_open 3 None None
                 (tt_add 1 ev_sock_open 2 None None (tt_empty :: nat StateTransitionTableT)))
        1 ev_sock_open) \<noteq> Some 3 \<and>
   map_option toStateT
     (sm_next (sm_add (Some 1) ev_sock_open (Some 3) None None
                 (sm_add (Some 1) ev_sock_open (Some 2) None None
                    (StateMachine_new (Some 1) None None :: nat StateMachine)))
        (Some 1) ev_sock_open) = Some (Some 2)"
  by (simp add: tt_next_def tt_add_def tt_addTransition_def tt_empty_def umap_insert_def
      sm_next_def sm_add_def sm_addTransition_def StateMachine_new_def ev_sock_open_def
      Event_of_id_def)

section \<open>Transitions: the order of the effects, and guards\<close>


lemma doTransition_passes:
  assumes "guard t = None \<or> (\<exists>g. guard t = Some g \<and> g e (fsm_data hsm))"
    and "currentState hsm = Some cs"
  shows "doTransition t hsm e =
         Inr (True,
              hsm\<lparr>currentState := Some (toState t),
                  fsm_data := (case action t of None \<Rightarrow> fsm_data hsm | Some a \<Rightarrow> a e (fsm_data hsm)),
                  fsm_log := fsm_log hsm @ [onExit cs e] @
                             (case action t of None \<Rightarrow> [] | Some a \<Rightarrow> [actionCall e]) @
                             [setCurrentState (toState t), onEntry (toState t) e]\<rparr>)"
  using assms by (cases "action t") (auto simp add: doTransition_def)

lemma doTransition_rejected:
  assumes "guard t = Some g" and "\<not> g e (fsm_data hsm)"
  shows "doTransition t hsm e = Inr (False, hsm)"
  using assms by (simp add: doTransition_def)

lemma sm_iteration_guard_false:
  assumes m: "heap w r = Some (Machine m)" and run: "\<not> sm_interrupt m"
    and cur: "sm_currentState m = Some cs" and nostop: "sm_stopState m \<noteq> Some cs"
    and q: "\<not> stopped w" "queue w = e # es"
    and hit: "sm_next m (Some cs) e = Some t"
    and g: "guardT t = Some g" "\<not> g (user w)"
  shows "run (Suc n) execute r w =
         run n execute r (w\<lparr>queue := es, trace := trace w @ [Dequeued r e, GuardPrevented r]\<rparr>)"
proof -
  have "run (Suc n) execute r w =
        sm_handle (run n) r m e (w\<lparr>queue := es, trace := trace w @ [Dequeued r e]\<rparr>)"
    using run_Machine_execute [OF m] sm_execute_dequeue [OF get_sm_Machine [OF m] run cur nostop q]
    by simp
  then show ?thesis using hit g cur by (simp add: sm_handle_def log_def)
qed

lemmas ex_defs = socket_world_def socket_sm_def sm_add_def sm_addTransition_def
  StateMachine_new_def umap_insert_def sm_next_def ev_sock_open_def ev_connect_def ev_close_def
  ev_other_def Event_of_id_def Event_of_id_data_def

text \<open>
  Claim C3, as the code has it. In \<^verbatim>\<open>Transition::doTransition\<close> of Transition.h a transition
  whose guard passes or is absent calls the exit hook of the current state, then the
  action if there is one, then sets the current state, then calls the entry hook of the
  target, and nothing more: the action runs between exit and entry, and there is no
  \<^verbatim>\<open>execute\<close>. In the dispatch loop of tsm.h the iteration takes the event from the queue, runs
  the hooks of the transition, then sets the current state, then calls the action if there
  is one, and calls \<^verbatim>\<open>execute\<close> of the target state last; the loop then goes on. (The second
  part is stated for plain states at both ends of the transition.)
\<close>

theorem transition_effect_order:
  "(currentState hsm = Some c \<and>
    (guard t' = None \<or> (\<exists>g. guard t' = Some g \<and> g e' (fsm_data hsm))) \<longrightarrow>
      doTransition t' hsm e' =
        Inr (True,
             hsm\<lparr>currentState := Some (toState t'),
                 fsm_data := (case action t' of None \<Rightarrow> fsm_data hsm
                              | Some a \<Rightarrow> a e' (fsm_data hsm)),
                 fsm_log := fsm_log hsm @ [onExit c e'] @
                            (case action t' of None \<Rightarrow> [] | Some a \<Rightarrow> [actionCall e']) @
                            [setCurrentState (toState t'), onEntry (toState t') e']\<rparr>)) \<and>
   (heap w r = Some (Machine m) \<and> \<not> sm_interrupt m \<and> sm_currentState m = Some cs \<and>
    sm_stopState m \<noteq> Some cs \<and> \<not> stopped w \<and> queue w = e # es \<and>
    sm_next m (Some cs) e = Some t \<and>
    (guardT t = None \<or> (\<exists>g. guardT t = Some g \<and> g (user w))) \<and>
    fromStateT t = Some cs \<and> toStateT t = Some s \<and>
    heap w cs = Some Leaf \<and> heap w s = Some Leaf \<longrightarrow>
      run (Suc (Suc n)) execute r w =
        run (Suc n) execute r
          (w\<lparr>heap := (heap w)(r \<mapsto> Machine (m\<lparr>sm_currentState := Some s\<rparr>)),
             queue := es,
             user := (case actionT t of None \<Rightarrow> user w | Some a \<Rightarrow> a (user w)),
             trace := trace w @ [Dequeued r e, Exited cs, Entered s, CurrentStateSet r (Some s)] @
                      (case actionT t of None \<Rightarrow> [] | Some a \<Rightarrow> [ActionCalled r]) @
                      [Executed s]\<rparr>))"
proof (intro conjI impI)
  assume "currentState hsm = Some c \<and>
    (guard t' = None \<or> (\<exists>g. guard t' = Some g \<and> g e' (fsm_data hsm)))"
  then show "doTransition t' hsm e' =
        Inr (True,
             hsm\<lparr>currentState := Some (toState t'),
                 fsm_data := (case action t' of None \<Rightarrow> fsm_data hsm
                              | Some a \<Rightarrow> a e' (fsm_data hsm)),
                 fsm_log := fsm_log hsm @ [onExit c e'] @
                            (case action t' of None \<Rightarrow> [] | Some a \<Rightarrow> [actionCall e']) @
                            [setCurrentState (toState t'), onEntry (toState t') e']\<rparr>)"
    using doTransition_passes [of t' e' hsm c] by blast
next
  assume a: "heap w r = Some (Machine m) \<and> \<not> sm_interrupt m \<and> sm_currentState m = Some cs \<and>
    sm_stopState m \<noteq> Some cs \<and> \<not> stopped w \<and> queue w = e # es \<and>
    sm_next m (Some cs) e = Some t \<and>
    (guardT t = None \<or> (\<exists>g. guardT t = Some g \<and> g (user w))) \<and>
    fromStateT t = Some cs \<and> toStateT t = Some s \<and>
    heap w cs = Some Leaf \<and> heap w s = Some Leaf"
  show "run (Suc (Suc n)) execute r w =
        run (Suc n) execute r
          (w\<lparr>heap := (heap w)(r \<mapsto> Machine (m\<lparr>sm_currentState := Some s\<rparr>)),
             queue := es,
             user := (case actionT t of None \<Rightarrow> user w | Some a \<Rightarrow> a (user w)),
             trace := trace w @ [Dequeued r e, Exited cs, Entered s, CurrentStateSet r (Some s)] @
                      (case actionT t of None \<Rightarrow> [] | Some a \<Rightarrow> [ActionCalled r]) @
                      [Executed s]\<rparr>)"
    by (rule sm_iteration_leaf) (use a in blast)+
qed

theorem transition_effect_order_witness:
  "doTransition \<lparr>toState = 2, action = Some (\<lambda>e u. Suc u), guard = None\<rparr>
      \<lparr>currentState = Some 1, fsm_data = 0, fsm_log = []\<rparr> ev_sock_open =
     Inr (True, \<lparr>currentState = Some 2, fsm_data = Suc 0,
                 fsm_log = [onExit 1 ev_sock_open, actionCall ev_sock_open, setCurrentState 2,
                            onEntry 2 ev_sock_open]\<rparr>) \<and>
   run (Suc (Suc 0)) execute 0 (socket_world (Some 1) [ev_sock_open]) =
     run (Suc 0) execute 0
       ((socket_world (Some 1) [ev_sock_open])
          \<lparr>heap := (heap (socket_world (Some 1) [ev_sock_open]))
                     (0 \<mapsto> Machine (socket_sm\<lparr>sm_currentState := Some 2\<rparr>)),
           queue := [],
           user := Suc 0,
           trace := [Dequeued 0 ev_sock_open, Exited 1, Entered 2, CurrentStateSet 0 (Some 2),
                     ActionCalled 0, Executed 2]\<rparr>)"
proof -
  let ?t = "\<lparr>fromStateT = Some 1, onEventT = ev_sock_open, toStateT = Some 2,
             actionT = Some Suc, guardT = None\<rparr> :: nat TransitionT"
  let ?w = "socket_world (Some 1) [ev_sock_open]"
  let ?m = "socket_sm\<lparr>sm_currentState := Some 1\<rparr>"
  have h: "heap ?w 0 = Some (Machine ?m) \<and> \<not> sm_interrupt ?m \<and> sm_currentState ?m = Some 1 \<and>
    sm_stopState ?m \<noteq> Some 1 \<and> \<not> stopped ?w \<and> queue ?w = ev_sock_open # [] \<and>
    sm_next ?m (Some 1) ev_sock_open = Some ?t \<and>
    (guardT ?t = None \<or> (\<exists>g. guardT ?t = Some g \<and> g (user ?w))) \<and>
    fromStateT ?t = Some 1 \<and> toStateT ?t = Some 2 \<and>
    heap ?w 1 = Some Leaf \<and> heap ?w 2 = Some Leaf"
    by (simp add: ex_defs)
  have u: "user (socket_world c q) = 0" "trace (socket_world c q) = []" for c q
    by (simp_all add: socket_world_def)
  show ?thesis
    using transition_effect_order
      [of "\<lparr>currentState = Some 1, fsm_data = 0, fsm_log = []\<rparr>" 1
          "\<lparr>toState = 2, action = Some (\<lambda>e u. Suc u), guard = None\<rparr>" ev_sock_open
          ?w 0 ?m 1 ev_sock_open "[]" ?t 2 0] h
    by (simp add: u)
qed

text \<open>
  Claim C3 as stated fails on the dispatch loop of tsm.h: the socket machine in state Closed
  takes \<open>ev_sock_open\<close>, whose transition has an action, and the action is called after the
  current state has been set (tsm.h, lines 191 to 197), not between exit and entry.
\<close>

theorem action_between_exit_and_entry_counterexample:
  "trace (world_of (run (Suc (Suc (Suc 0))) execute 0 (socket_world (Some 1) [ev_sock_open]))) =
     [Dequeued 0 ev_sock_open, Exited 1, Entered 2, CurrentStateSet 0 (Some 2), ActionCalled 0,
      Executed 2] \<and>
   trace (world_of (run (Suc (Suc (Suc 0))) execute 0 (socket_world (Some 1) [ev_sock_open]))) \<noteq>
     [Dequeued 0 ev_sock_open, Exited 1, ActionCalled 0, CurrentStateSet 0 (Some 2), Entered 2,
      Executed 2]"
  by (simp add: ex_defs dispatch_def sm_execute_def sm_handle_def doTransitionT_def leaf_call_def
      then_do_def log_def upd_sm_def map_machine_def get_sm_def machine_of_def nextEvent_def)



lemma socket_world_sel:
  "queue (socket_world c q) = q" "user (socket_world c q) = 0" "trace (socket_world c q) = []"
  "stopped (socket_world c q) = False"
  by (simp_all add: socket_world_def)

text \<open>
  Claim C4. A transition without a guard is taken: \<^verbatim>\<open>doTransition\<close> of Transition.h reports
  it as done and the target is the current state, and the iteration of tsm.h goes on in
  the target state (stated for plain states). A guard that evaluates to false leaves the
  machine as it is: \<^verbatim>\<open>doTransition\<close> returns false and touches nothing, and the iteration of
  tsm.h has taken the event from the queue and logged the rejection, with no hook, no
  action and no assignment, before the loop goes on.
\<close>

theorem guard_false_is_inert:
  "(guard t' = None \<and> currentState hsm = Some c \<longrightarrow>
      (\<exists>h. doTransition t' hsm e' = Inr (True, h) \<and> currentState h = Some (toState t'))) \<and>
   (guard t' = Some g' \<and> \<not> g' e' (fsm_data hsm) \<longrightarrow> doTransition t' hsm e' = Inr (False, hsm)) \<and>
   (heap w r = Some (Machine m) \<and> \<not> sm_interrupt m \<and> sm_currentState m = Some cs \<and>
    sm_stopState m \<noteq> Some cs \<and> \<not> stopped w \<and> queue w = e # es \<and>
    sm_next m (Some cs) e = Some t \<longrightarrow>
      (guardT t = Some g \<and> \<not> g (user w) \<longrightarrow>
         run (Suc n) execute r w =
           run n execute r (w\<lparr>queue := es, trace := trace w @ [Dequeued r e, GuardPrevented r]\<rparr>)) \<and>
      (guardT t = None \<and> fromStateT t = Some cs \<and> toStateT t = Some s \<and>
       heap w cs = Some Leaf \<and> heap w s = Some Leaf \<longrightarrow>
         (\<exists>w'. run (Suc (Suc n)) execute r w = run (Suc n) execute r w' \<and>
               get_sm w' r = Some (m\<lparr>sm_currentState := Some s\<rparr>) \<and> queue w' = es)))"
proof (intro conjI impI)
  assume "guard t' = None \<and> currentState hsm = Some c"
  then show "\<exists>h. doTransition t' hsm e' = Inr (True, h) \<and> currentState h = Some (toState t')"
    using doTransition_passes [of t' e' hsm c] by simp
next
  assume "guard t' = Some g' \<and> \<not> g' e' (fsm_data hsm)"
  then show "doTransition t' hsm e' = Inr (False, hsm)"
    using doTransition_rejected [of t' g' e' hsm] by simp
next
  assume a: "heap w r = Some (Machine m) \<and> \<not> sm_interrupt m \<and> sm_currentState m = Some cs \<and>
    sm_stopState m \<noteq> Some cs \<and> \<not> stopped w \<and> queue w = e # es \<and>
    sm_next m (Some cs) e = Some t"
    and g: "guardT t = Some g \<and> \<not> g (user w)"
  show "run (Suc n) execute r w =
        run n execute r (w\<lparr>queue := es, trace := trace w @ [Dequeued r e, GuardPrevented r]\<rparr>)"
    by (rule sm_iteration_guard_false [where m = m and cs = cs and t = t and g = g])
       (use a g in blast)+
next
  assume a: "heap w r = Some (Machine m) \<and> \<not> sm_interrupt m \<and> sm_currentState m = Some cs \<and>
    sm_stopState m \<noteq> Some cs \<and> \<not> stopped w \<and> queue w = e # es \<and>
    sm_next m (Some cs) e = Some t"
    and g: "guardT t = None \<and> fromStateT t = Some cs \<and> toStateT t = Some s \<and>
       heap w cs = Some Leaf \<and> heap w s = Some Leaf"
  let ?w' = "w\<lparr>heap := (heap w)(r \<mapsto> Machine (m\<lparr>sm_currentState := Some s\<rparr>)),
             queue := es,
             user := (case actionT t of None \<Rightarrow> user w | Some a \<Rightarrow> a (user w)),
             trace := trace w @ [Dequeued r e, Exited cs, Entered s, CurrentStateSet r (Some s)] @
                      (case actionT t of None \<Rightarrow> [] | Some a \<Rightarrow> [ActionCalled r]) @
                      [Executed s]\<rparr>"
  have "run (Suc (Suc n)) execute r w = run (Suc n) execute r ?w'"
    by (rule sm_iteration_leaf) (use a g in blast)+
  moreover have "get_sm ?w' r = Some (m\<lparr>sm_currentState := Some s\<rparr>)"
    by (simp add: get_sm_def machine_of_def)
  moreover have "queue ?w' = es" by simp
  ultimately show "\<exists>w'. run (Suc (Suc n)) execute r w = run (Suc n) execute r w' \<and>
               get_sm w' r = Some (m\<lparr>sm_currentState := Some s\<rparr>) \<and> queue w' = es"
    by blast
qed

theorem guard_false_is_inert_witness:
  "doTransition \<lparr>toState = 3, action = None, guard = Some (\<lambda>e u. 1 < u)\<rparr>
      \<lparr>currentState = Some 2, fsm_data = 0::nat, fsm_log = []\<rparr> ev_connect =
     Inr (False, \<lparr>currentState = Some 2, fsm_data = 0::nat, fsm_log = []\<rparr>) \<and>
   (\<exists>h. doTransition \<lparr>toState = 2, action = None, guard = None\<rparr>
           \<lparr>currentState = Some 1, fsm_data = 0::nat, fsm_log = []\<rparr> ev_sock_open = Inr (True, h) \<and>
        currentState h = Some 2) \<and>
   run (Suc 0) execute 0 (socket_world (Some 2) [ev_connect]) =
     run 0 execute 0
       ((socket_world (Some 2) [ev_connect])
          \<lparr>queue := [], trace := [Dequeued 0 ev_connect, GuardPrevented 0]\<rparr>) \<and>
   (\<exists>w'. run (Suc (Suc 0)) execute 0 (socket_world (Some 1) [ev_sock_open]) =
           run (Suc 0) execute 0 w' \<and>
         get_sm w' 0 = Some (socket_sm\<lparr>sm_currentState := Some 2\<rparr>) \<and> queue w' = [])"
proof -
  let ?t1 = "\<lparr>fromStateT = Some 1, onEventT = ev_sock_open, toStateT = Some 2,
             actionT = Some Suc, guardT = None\<rparr> :: nat TransitionT"
  let ?t2 = "\<lparr>fromStateT = Some 2, onEventT = ev_connect, toStateT = Some 3,
             actionT = None, guardT = Some (\<lambda>u. 1 < u)\<rparr> :: nat TransitionT"
  let ?w1 = "socket_world (Some 1) [ev_sock_open]"
  let ?m1 = "socket_sm\<lparr>sm_currentState := Some 1\<rparr>"
  let ?w2 = "socket_world (Some 2) [ev_connect]"
  let ?m2 = "socket_sm\<lparr>sm_currentState := Some 2\<rparr>"
  have h1: "heap ?w1 0 = Some (Machine ?m1) \<and> \<not> sm_interrupt ?m1 \<and> sm_currentState ?m1 = Some 1 \<and>
    sm_stopState ?m1 \<noteq> Some 1 \<and> \<not> stopped ?w1 \<and> queue ?w1 = ev_sock_open # [] \<and>
    sm_next ?m1 (Some 1) ev_sock_open = Some ?t1"
    "guardT ?t1 = None \<and> fromStateT ?t1 = Some 1 \<and> toStateT ?t1 = Some 2 \<and>
       heap ?w1 1 = Some Leaf \<and> heap ?w1 2 = Some Leaf"
    by (simp_all add: ex_defs)
  have h2: "heap ?w2 0 = Some (Machine ?m2) \<and> \<not> sm_interrupt ?m2 \<and> sm_currentState ?m2 = Some 2 \<and>
    sm_stopState ?m2 \<noteq> Some 2 \<and> \<not> stopped ?w2 \<and> queue ?w2 = ev_connect # [] \<and>
    sm_next ?m2 (Some 2) ev_connect = Some ?t2"
    "guardT ?t2 = Some (\<lambda>u. 1 < u) \<and> \<not> (\<lambda>u. 1 < u) (user ?w2)"
    by (simp_all add: ex_defs)
  have a: "doTransition \<lparr>toState = 3, action = None, guard = Some (\<lambda>e u. 1 < u)\<rparr>
      \<lparr>currentState = Some 2, fsm_data = 0::nat, fsm_log = []\<rparr> ev_connect =
     Inr (False, \<lparr>currentState = Some 2, fsm_data = 0::nat, fsm_log = []\<rparr>)"
    using guard_false_is_inert
      [where t' = "\<lparr>toState = 3, action = None, guard = Some (\<lambda>e u. 1 < u)\<rparr>"
         and hsm = "\<lparr>currentState = Some 2, fsm_data = 0::nat, fsm_log = []\<rparr>"
         and g' = "\<lambda>e u. 1 < u" and e' = ev_connect, THEN conjunct2, THEN conjunct1]
    by simp
  have b: "\<exists>h. doTransition \<lparr>toState = 2, action = None, guard = None\<rparr>
           \<lparr>currentState = Some 1, fsm_data = 0::nat, fsm_log = []\<rparr> ev_sock_open = Inr (True, h) \<and>
        currentState h = Some 2"
    using guard_false_is_inert
      [where t' = "\<lparr>toState = 2, action = None, guard = None\<rparr>"
         and hsm = "\<lparr>currentState = Some 1, fsm_data = 0::nat, fsm_log = []\<rparr>"
         and c = 1 and e' = ev_sock_open, THEN conjunct1]
    by simp
  have c: "run (Suc 0) execute 0 ?w2 =
     run 0 execute 0 (?w2\<lparr>queue := [], trace := [Dequeued 0 ev_connect, GuardPrevented 0]\<rparr>)"
    using guard_false_is_inert
      [where w = ?w2 and r = 0 and m = ?m2 and cs = 2 and e = ev_connect and es = "[]"
         and t = ?t2 and g = "\<lambda>u. 1 < u" and n = 0, THEN conjunct2, THEN conjunct2] h2
    by (simp add: socket_world_sel del: run.simps)
  have d: "\<exists>w'. run (Suc (Suc 0)) execute 0 ?w1 = run (Suc 0) execute 0 w' \<and>
         get_sm w' 0 = Some (socket_sm\<lparr>sm_currentState := Some 2\<rparr>) \<and> queue w' = []"
    using guard_false_is_inert
      [where w = ?w1 and r = 0 and m = ?m1 and cs = 1 and e = ev_sock_open and es = "[]"
         and t = ?t1 and s = 2 and n = 0, THEN conjunct2, THEN conjunct2] h1
    by (simp del: run.simps)
  show ?thesis using a b c d by blast
qed

section \<open>The stop state\<close>

text \<open>
  Claim C7. An iteration of the dispatch loop that finds the current state equal to the
  stop state sets the interrupt flag and ends the loop; the queue and the trace are as
  before, so nothing has been taken from the queue, and any later \<^verbatim>\<open>execute\<close> of the machine
  returns at once. The comparison is made before the dequeue only: an iteration whose
  transition lands on the stop state runs that transition to its end (hooks, assignment,
  action, execute of the stop state), and it is the next iteration that sets the flag and
  leaves the loop, with the rest of the queue untouched. (The second part is stated for
  plain states at both ends of the transition.)
\<close>

theorem stop_state_checked_first:
  assumes "heap w r = Some (Machine m)" and "\<not> sm_interrupt m"
  shows "(sm_currentState m = sm_stopState m \<longrightarrow>
            run (Suc n) execute r w = Returned (upd_sm r (\<lambda>x. x\<lparr>sm_interrupt := True\<rparr>) w) \<and>
            queue (upd_sm r (\<lambda>x. x\<lparr>sm_interrupt := True\<rparr>) w) = queue w \<and>
            trace (upd_sm r (\<lambda>x. x\<lparr>sm_interrupt := True\<rparr>) w) = trace w \<and>
            get_sm (upd_sm r (\<lambda>x. x\<lparr>sm_interrupt := True\<rparr>) w) r = Some (m\<lparr>sm_interrupt := True\<rparr>) \<and>
            run (Suc k) execute r (upd_sm r (\<lambda>x. x\<lparr>sm_interrupt := True\<rparr>) w) =
              Returned (upd_sm r (\<lambda>x. x\<lparr>sm_interrupt := True\<rparr>) w)) \<and>
         (sm_currentState m = Some cs \<and> sm_stopState m = Some s \<and> cs \<noteq> s \<and>
          \<not> stopped w \<and> queue w = e # es \<and> sm_next m (Some cs) e = Some t \<and>
          (guardT t = None \<or> (\<exists>g. guardT t = Some g \<and> g (user w))) \<and>
          fromStateT t = Some cs \<and> toStateT t = Some s \<and>
          heap w cs = Some Leaf \<and> heap w s = Some Leaf \<longrightarrow>
            run (Suc (Suc n)) execute r w =
              Returned
                (w\<lparr>heap := (heap w)(r \<mapsto> Machine (m\<lparr>sm_currentState := Some s, sm_interrupt := True\<rparr>)),
                   queue := es,
                   user := (case actionT t of None \<Rightarrow> user w | Some a \<Rightarrow> a (user w)),
                   trace := trace w @
                            [Dequeued r e, Exited cs, Entered s, CurrentStateSet r (Some s)] @
                            (case actionT t of None \<Rightarrow> [] | Some a \<Rightarrow> [ActionCalled r]) @
                            [Executed s]\<rparr>))"
proof (intro conjI impI)
  let ?w = "upd_sm r (\<lambda>x. x\<lparr>sm_interrupt := True\<rparr>) w"
  assume eq: "sm_currentState m = sm_stopState m"
  have g: "get_sm w r = Some m" using assms(1) by (rule get_sm_Machine)
  show 1: "run (Suc n) execute r w = Returned ?w"
    using run_Machine_execute [OF assms(1)] sm_execute_stop [OF g assms(2) eq] by simp
  have h: "heap ?w r = Some (Machine (m\<lparr>sm_interrupt := True\<rparr>))"
    using heap_upd_sm_Machine [OF assms(1)] by simp
  show "run (Suc k) execute r ?w = Returned ?w"
    using run_Machine_execute [OF h] sm_execute_interrupted [OF get_sm_Machine [OF h]] by simp
  show "queue ?w = queue w" "trace ?w = trace w" by simp_all
  show "get_sm ?w r = Some (m\<lparr>sm_interrupt := True\<rparr>)"
    using get_sm_Machine [OF h] .
next
  assume a: "sm_currentState m = Some cs \<and> sm_stopState m = Some s \<and> cs \<noteq> s \<and>
          \<not> stopped w \<and> queue w = e # es \<and> sm_next m (Some cs) e = Some t \<and>
          (guardT t = None \<or> (\<exists>g. guardT t = Some g \<and> g (user w))) \<and>
          fromStateT t = Some cs \<and> toStateT t = Some s \<and>
          heap w cs = Some Leaf \<and> heap w s = Some Leaf"
  let ?w' = "w\<lparr>heap := (heap w)(r \<mapsto> Machine (m\<lparr>sm_currentState := Some s\<rparr>)),
             queue := es,
             user := (case actionT t of None \<Rightarrow> user w | Some a \<Rightarrow> a (user w)),
             trace := trace w @ [Dequeued r e, Exited cs, Entered s, CurrentStateSet r (Some s)] @
                      (case actionT t of None \<Rightarrow> [] | Some a \<Rightarrow> [ActionCalled r]) @
                      [Executed s]\<rparr>"
  have nostop: "sm_stopState m \<noteq> Some cs" using a by auto
  have 1: "run (Suc (Suc n)) execute r w = run (Suc n) execute r ?w'"
    by (rule sm_iteration_leaf [OF assms(1,2) _ nostop]) (use a in blast)+
  have h: "heap ?w' r = Some (Machine (m\<lparr>sm_currentState := Some s\<rparr>))" by simp
  have 2: "run (Suc n) execute r ?w' = Returned (upd_sm r (\<lambda>x. x\<lparr>sm_interrupt := True\<rparr>) ?w')"
    using run_Machine_execute [OF h] sm_execute_stop [OF get_sm_Machine [OF h]] assms(2) a
    by simp
  have 3: "upd_sm r (\<lambda>x. x\<lparr>sm_interrupt := True\<rparr>) ?w' =
        w\<lparr>heap := (heap w)(r \<mapsto> Machine (m\<lparr>sm_currentState := Some s, sm_interrupt := True\<rparr>)),
                   queue := es,
                   user := (case actionT t of None \<Rightarrow> user w | Some a \<Rightarrow> a (user w)),
                   trace := trace w @
                            [Dequeued r e, Exited cs, Entered s, CurrentStateSet r (Some s)] @
                            (case actionT t of None \<Rightarrow> [] | Some a \<Rightarrow> [ActionCalled r]) @
                            [Executed s]\<rparr>"
    by (rule world.equality) (simp_all add: upd_sm_def map_machine_def)
  show "run (Suc (Suc n)) execute r w =
              Returned
                (w\<lparr>heap := (heap w)(r \<mapsto> Machine (m\<lparr>sm_currentState := Some s, sm_interrupt := True\<rparr>)),
                   queue := es,
                   user := (case actionT t of None \<Rightarrow> user w | Some a \<Rightarrow> a (user w)),
                   trace := trace w @
                            [Dequeued r e, Exited cs, Entered s, CurrentStateSet r (Some s)] @
                            (case actionT t of None \<Rightarrow> [] | Some a \<Rightarrow> [ActionCalled r]) @
                            [Executed s]\<rparr>)"
    unfolding 1 2 3 ..
qed

theorem stop_state_checked_first_witness:
  "run (Suc 0) execute 0 (socket_world (Some 4) [ev_close, ev_other]) =
     Returned (upd_sm 0 (\<lambda>x. x\<lparr>sm_interrupt := True\<rparr>) (socket_world (Some 4) [ev_close, ev_other])) \<and>
   queue (upd_sm 0 (\<lambda>x. x\<lparr>sm_interrupt := True\<rparr>) (socket_world (Some 4) [ev_close, ev_other])) =
     [ev_close, ev_other] \<and>
   run (Suc (Suc 0)) execute 0 (socket_world (Some 3) [ev_close, ev_other]) =
     Returned
       ((socket_world (Some 3) [ev_close, ev_other])
          \<lparr>heap := (heap (socket_world (Some 3) [ev_close, ev_other]))
                     (0 \<mapsto> Machine (socket_sm\<lparr>sm_currentState := Some 4, sm_interrupt := True\<rparr>)),
           queue := [ev_other],
           user := 0,
           trace := [Dequeued 0 ev_close, Exited 3, Entered 4, CurrentStateSet 0 (Some 4),
                     Executed 4]\<rparr>)"
proof -
  let ?t = "\<lparr>fromStateT = Some 3, onEventT = ev_close, toStateT = Some 4,
             actionT = None, guardT = None\<rparr> :: nat TransitionT"
  let ?w4 = "socket_world (Some 4) [ev_close, ev_other]"
  let ?m4 = "socket_sm\<lparr>sm_currentState := Some 4\<rparr>"
  let ?w3 = "socket_world (Some 3) [ev_close, ev_other]"
  let ?m3 = "socket_sm\<lparr>sm_currentState := Some 3\<rparr>"
  have h4: "heap ?w4 0 = Some (Machine ?m4)" "\<not> sm_interrupt ?m4"
    "sm_currentState ?m4 = sm_stopState ?m4"
    by (simp_all add: ex_defs)
  have h3: "heap ?w3 0 = Some (Machine ?m3)" "\<not> sm_interrupt ?m3"
    "sm_currentState ?m3 = Some 3 \<and> sm_stopState ?m3 = Some 4 \<and> (3::nat) \<noteq> 4 \<and>
          \<not> stopped ?w3 \<and> queue ?w3 = ev_close # [ev_other] \<and>
          sm_next ?m3 (Some 3) ev_close = Some ?t \<and>
          (guardT ?t = None \<or> (\<exists>g. guardT ?t = Some g \<and> g (user ?w3))) \<and>
          fromStateT ?t = Some 3 \<and> toStateT ?t = Some 4 \<and>
          heap ?w3 3 = Some Leaf \<and> heap ?w3 4 = Some Leaf"
    by (simp_all add: ex_defs)
  have a: "run (Suc 0) execute 0 ?w4 = Returned (upd_sm 0 (\<lambda>x. x\<lparr>sm_interrupt := True\<rparr>) ?w4) \<and>
       queue (upd_sm 0 (\<lambda>x. x\<lparr>sm_interrupt := True\<rparr>) ?w4) = [ev_close, ev_other]"
    using stop_state_checked_first [OF h4(1,2), where n = 0, THEN conjunct1] h4(3)
    by (simp add: socket_world_sel del: run.simps)
  have b: "run (Suc (Suc 0)) execute 0 ?w3 =
     Returned
       (?w3\<lparr>heap := (heap ?w3)
                     (0 \<mapsto> Machine (socket_sm\<lparr>sm_currentState := Some 4, sm_interrupt := True\<rparr>)),
           queue := [ev_other],
           user := 0,
           trace := [Dequeued 0 ev_close, Exited 3, Entered 4, CurrentStateSet 0 (Some 4),
                     Executed 4]\<rparr>)"
    using stop_state_checked_first
      [OF h3(1,2), where n = 0 and cs = 3 and s = 4 and e = ev_close and es = "[ev_other]"
         and t = ?t, THEN conjunct2] h3(3)
    by (simp add: socket_world_sel del: run.simps)
  show ?thesis using a b by blast
qed

section \<open>A machine as the state of a machine\<close>



lemmas nested_defs = nested_world_def parent_sm_def child_sm_def sm_add_def sm_addTransition_def
  StateMachine_new_def umap_insert_def sm_next_def ev_sock_open_def ev_connect_def ev_close_def
  ev_other_def Event_of_id_def Event_of_id_data_def

text \<open>
  The whole path in one run: the machine at 0 enters its state 5, a machine of its own,
  which is started, takes \<open>ev_close\<close> from the queue, has no entry for it and puts it back;
  the machine at 0 takes it next and leaves state 5 on it.
\<close>

lemma parent_propagation_scenario:
  "trace (world_of (run (Suc (Suc (Suc (Suc 0)))) execute 0
                      (nested_world (Some 1) None [ev_sock_open, ev_close]))) =
     [Dequeued 0 ev_sock_open, Exited 1, CurrentStateSet 0 (Some 5), Dequeued 5 ev_close,
      Dequeued 0 ev_close, Entered 1, CurrentStateSet 0 (Some 1), Executed 1]"
  by (simp add: nested_defs dispatch_def sm_execute_def sm_handle_def doTransitionT_def
      leaf_call_def then_do_def log_def upd_sm_def map_machine_def get_sm_def machine_of_def
      nextEvent_def sm_OnEntry_def sm_OnExit_def startHSM_def stopHSM_def addFront_def)

section \<open>Start and stop\<close>


lemma upd_sm_Machine:
  "heap w r = Some (Machine m) \<Longrightarrow> upd_sm r f w = w\<lparr>heap := (heap w)(r \<mapsto> Machine (f m))\<rparr>"
  by (simp add: upd_sm_def map_machine_def)

lemma get_sm_other_fields:
  "get_sm (log x w) r = get_sm w r" "get_sm (stop w) r = get_sm w r"
  "get_sm (addFront e w) r = get_sm w r"
  by (simp_all add: get_sm_def log_def stop_def addFront_def)

text \<open>
  Claim C5, as the code has it: entering a \<^verbatim>\<open>StateMachine\<close> (\<^verbatim>\<open>OnEntry\<close>, which is \<^verbatim>\<open>startHSM\<close>) sets
  the current state to the start state and, when the machine has no parent, starts the
  worker thread; nothing else happens, and no hook of the start state is called.
\<close>

theorem start_sets_current_state:
  assumes "heap w r = Some (Machine m)"
  shows "(sm_parent m = None \<and> \<not> sm_thread m \<longrightarrow>
            run (Suc n) OnEntry r w =
              Returned
                (w\<lparr>heap := (heap w)(r \<mapsto> Machine (m\<lparr>sm_currentState := sm_startState m,
                                                       sm_thread := True\<rparr>)),
                   trace := trace w @ [ThreadStarted r]\<rparr>)) \<and>
         (sm_parent m \<noteq> None \<longrightarrow>
            run (Suc n) OnEntry r w =
              Returned (w\<lparr>heap := (heap w)(r \<mapsto> Machine (m\<lparr>sm_currentState := sm_startState m\<rparr>))\<rparr>))"
proof -
  have 1: "run (Suc n) OnEntry r w = startHSM r w"
    using assms by (simp add: dispatch_def sm_OnEntry_def)
  show ?thesis
    unfolding 1 using assms
    by (auto simp add: startHSM_def get_sm_Machine upd_sm_Machine log_def Let_def
        intro!: world.equality)
qed

theorem start_sets_current_state_witness:
  "run (Suc 0) OnEntry 0 (socket_world None [ev_sock_open]) =
     Returned
       ((socket_world None [ev_sock_open])
          \<lparr>heap := (heap (socket_world None [ev_sock_open]))
                     (0 \<mapsto> Machine (socket_sm\<lparr>sm_currentState := Some 1, sm_thread := True\<rparr>)),
           trace := [ThreadStarted 0]\<rparr>) \<and>
   run (Suc 0) OnEntry 5 (nested_world (Some 5) None []) =
     Returned
       ((nested_world (Some 5) None [])
          \<lparr>heap := (heap (nested_world (Some 5) None []))
                     (5 \<mapsto> Machine (child_sm\<lparr>sm_currentState := Some 6\<rparr>))\<rparr>)"
proof -
  let ?w = "socket_world None [ev_sock_open]"
  let ?m = "socket_sm\<lparr>sm_currentState := None\<rparr>"
  let ?v = "nested_world (Some 5) None []"
  let ?c = "child_sm\<lparr>sm_currentState := None\<rparr>"
  have hw: "heap ?w 0 = Some (Machine ?m)" by (simp add: ex_defs)
  have hm: "sm_parent ?m = None \<and> \<not> sm_thread ?m" "sm_startState ?m = Some 1"
    by (simp_all add: ex_defs)
  have hv: "heap ?v 5 = Some (Machine ?c)" by (simp add: nested_defs)
  have hc: "sm_parent ?c \<noteq> None" "sm_startState ?c = Some 6" by (simp_all add: nested_defs)
  have a: "run (Suc 0) OnEntry 0 ?w =
     Returned (?w\<lparr>heap := (heap ?w)(0 \<mapsto> Machine (socket_sm\<lparr>sm_currentState := Some 1,
                                                             sm_thread := True\<rparr>)),
                 trace := [ThreadStarted 0]\<rparr>)"
    using start_sets_current_state [OF hw, where n = 0, THEN conjunct1] hm
    by (simp add: socket_world_sel del: run.simps)
  have b: "run (Suc 0) OnEntry 5 ?v =
     Returned (?v\<lparr>heap := (heap ?v)(5 \<mapsto> Machine (child_sm\<lparr>sm_currentState := Some 6\<rparr>))\<rparr>)"
    using start_sets_current_state [OF hv, where n = 0, THEN conjunct2] hc
    by (simp del: run.simps)
  show ?thesis using a b by blast
qed

text \<open>
  Claim C5 as stated fails: starting the socket machine records the start of the thread
  and nothing else; the entry hook of its start state, the plain state 1, is not called.
\<close>

theorem start_calls_entry_hook_counterexample:
  "trace (world_of (run (Suc 0) OnEntry 0 (socket_world None [ev_sock_open]))) = [ThreadStarted 0] \<and>
   Entered 1 \<notin> set (trace (world_of (run (Suc 0) OnEntry 0 (socket_world None [ev_sock_open])))) \<and>
   map_option sm_currentState
     (get_sm (world_of (run (Suc 0) OnEntry 0 (socket_world None [ev_sock_open]))) 0) =
     Some (Some 1)"
  by (simp add: ex_defs dispatch_def sm_OnEntry_def startHSM_def get_sm_def machine_of_def
      upd_sm_def map_machine_def log_def)

text \<open>
  Claim C9, as the code has it: \<^verbatim>\<open>startHSM\<close> and \<^verbatim>\<open>stopHSM\<close> return nothing and look at no
  lifecycle state. Whatever state the machine is in, \<^verbatim>\<open>startHSM\<close> leaves its current state
  equal to the start state and \<^verbatim>\<open>stopHSM\<close> leaves its interrupt flag set; on a machine with a
  parent both return normally and do nothing else.
\<close>

theorem start_stop_unchecked:
  assumes "get_sm w r = Some m"
  shows "(\<exists>m'. get_sm (world_of (startHSM r w)) r = Some m' \<and>
               sm_currentState m' = sm_startState m) \<and>
         (\<exists>m'. get_sm (world_of (stopHSM r w)) r = Some m' \<and> sm_interrupt m') \<and>
         (sm_parent m \<noteq> None \<longrightarrow>
            startHSM r w = Returned (upd_sm r (\<lambda>x. x\<lparr>sm_currentState := sm_startState x\<rparr>) w) \<and>
            stopHSM r w = Returned (upd_sm r (\<lambda>x. x\<lparr>sm_interrupt := True\<rparr>) w))"
proof -
  have g: "get_sm (upd_sm r f w) r = Some (f m)" for f
    using assms by (rule get_sm_upd_sm_same)
  have g2: "get_sm (upd_sm r f' (upd_sm r f w)) r = Some (f' (f m))" for f f'
    using g by (rule get_sm_upd_sm_same)
  have g3: "get_sm (upd_sm r f' (stop (upd_sm r f w))) r = Some (f' (f m))" for f f'
    using g [of f] get_sm_upd_sm_same [of "stop (upd_sm r f w)" r "f m" f']
    by (simp add: get_sm_other_fields)
  show ?thesis
    using assms
    by (simp add: startHSM_def stopHSM_def Let_def g g2 g3 get_sm_other_fields)
qed

theorem start_stop_unchecked_witness:
  "startHSM 5 (nested_world (Some 5) (Some 7) []) =
     Returned (upd_sm 5 (\<lambda>x. x\<lparr>sm_currentState := sm_startState x\<rparr>) (nested_world (Some 5) (Some 7) [])) \<and>
   stopHSM 5 (nested_world (Some 1) None []) =
     Returned (upd_sm 5 (\<lambda>x. x\<lparr>sm_interrupt := True\<rparr>) (nested_world (Some 1) None []))"
proof -
  let ?w = "nested_world (Some 5) (Some 7) []"
  let ?v = "nested_world (Some 1) None []"
  have hw: "get_sm ?w 5 = Some (child_sm\<lparr>sm_currentState := Some 7\<rparr>)"
    by (simp add: nested_defs get_sm_def machine_of_def)
  have hv: "get_sm ?v 5 = Some (child_sm\<lparr>sm_currentState := None\<rparr>)"
    by (simp add: nested_defs get_sm_def machine_of_def)
  have p: "sm_parent (child_sm\<lparr>sm_currentState := c\<rparr>) \<noteq> None" for c
    by (simp add: nested_defs)
  show ?thesis
    using start_stop_unchecked [OF hw, THEN conjunct2, THEN conjunct2]
      start_stop_unchecked [OF hv, THEN conjunct2, THEN conjunct2] p
    by blast
qed

text \<open>
  Claim C9 as stated fails: \<^verbatim>\<open>startHSM\<close> on the running machine at 5, which is in state 7,
  returns normally and has moved it back to its start state 6; \<^verbatim>\<open>stopHSM\<close> on the same machine
  before it was ever started returns normally and has set its interrupt flag.
\<close>

theorem double_start_counterexample:
  "startHSM 5 (nested_world (Some 5) (Some 7) []) =
     Returned (world_of (startHSM 5 (nested_world (Some 5) (Some 7) []))) \<and>
   map_option sm_currentState (get_sm (nested_world (Some 5) (Some 7) []) 5) = Some (Some 7) \<and>
   map_option sm_currentState
     (get_sm (world_of (startHSM 5 (nested_world (Some 5) (Some 7) []))) 5) = Some (Some 6) \<and>
   stopHSM 5 (nested_world (Some 1) None []) =
     Returned (world_of (stopHSM 5 (nested_world (Some 1) None []))) \<and>
   map_option sm_interrupt (get_sm (nested_world (Some 1) None []) 5) = Some False \<and>
   map_option sm_interrupt (get_sm (world_of (stopHSM 5 (nested_world (Some 1) None []))) 5) =
     Some True"
  by (simp add: nested_defs startHSM_def stopHSM_def get_sm_def machine_of_def upd_sm_def
      map_machine_def)

section \<open>The current state stays within the table\<close>



lemma get_sm_record_fields [simp]:
  "get_sm (w\<lparr>queue := q\<rparr>) a = get_sm w a"
  "get_sm (w\<lparr>user := u\<rparr>) a = get_sm w a"
  "get_sm (w\<lparr>trace := tr\<rparr>) a = get_sm w a"
  "get_sm (w\<lparr>stopped := b\<rparr>) a = get_sm w a"
  by (simp_all add: get_sm_def)

lemma inv_with_fields [simp]:
  "inv_with a K T S (w\<lparr>queue := q\<rparr>) = inv_with a K T S w"
  "inv_with a K T S (w\<lparr>user := u\<rparr>) = inv_with a K T S w"
  "inv_with a K T S (w\<lparr>trace := tr\<rparr>) = inv_with a K T S w"
  "inv_with a K T S (w\<lparr>stopped := b\<rparr>) = inv_with a K T S w"
  by (simp_all add: inv_with_def)

lemma inv_with_prims [simp]:
  "inv_with a K T S (log x w) = inv_with a K T S w"
  "inv_with a K T S (addFront e w) = inv_with a K T S w"
  "inv_with a K T S (stop w) = inv_with a K T S w"
  by (simp_all add: log_def addFront_def stop_def)




























section \<open>\<^verbatim>\<open>OrthogonalHSM\<close>: routing\<close>


lemmas ortho_defs = ortho_world_def hsmA_def hsmB_def sm_add_def sm_addTransition_def
  StateMachine_new_def umap_insert_def sm_next_def ev_sock_open_def ev_connect_def ev_close_def
  ev_other_def Event_of_id_def Event_of_id_data_def

lemmas run_defs = dispatch_def sm_execute_def sm_handle_def doTransitionT_def leaf_call_def
  then_do_def log_def upd_sm_def map_machine_def get_sm_def machine_of_def nextEvent_def
  sm_OnEntry_def sm_OnExit_def startHSM_def stopHSM_def addFront_def ortho_execute_def
  ortho_route_def ortho_OnEntry_def ortho_OnExit_def stop_def

lemma ortho_world_sel:
  "queue (ortho_world p a b q) = q" "user (ortho_world p a b q) = 0"
  "trace (ortho_world p a b q) = []" "stopped (ortho_world p a b q) = False"
  by (simp_all add: ortho_world_def)

lemma run_Orthogonal_execute:
  "heap w r = Some (Orthogonal m h1 h2) \<Longrightarrow>
   run (Suc n) execute r w = ortho_execute (run n) r h1 h2 w"
  by (simp add: dispatch_def)

lemma sm_iteration_miss_parent:
  assumes "heap w r = Some (Machine m)" and "\<not> sm_interrupt m"
    and "sm_currentState m = Some cs" and "sm_stopState m \<noteq> Some cs"
    and "\<not> stopped w" and "queue w = e # es"
    and "sm_next m (Some cs) e = None" and "sm_parent m \<noteq> None"
  shows "run (Suc n) execute r w = Returned (w\<lparr>trace := trace w @ [Dequeued r e]\<rparr>)"
proof -
  have 1: "run (Suc n) execute r w =
           sm_handle (run n) r m e (w\<lparr>queue := es, trace := trace w @ [Dequeued r e]\<rparr>)"
    using run_Machine_execute [OF assms(1)]
      sm_execute_dequeue [OF get_sm_Machine [OF assms(1)] assms(2-6)]
    by simp
  have 2: "addFront e (w\<lparr>queue := es, trace := trace w @ [Dequeued r e]\<rparr>) =
           w\<lparr>trace := trace w @ [Dequeued r e]\<rparr>"
    by (rule world.equality) (simp_all add: addFront_def assms(6))
  show ?thesis using assms(3,7,8) 2 by (simp add: 1 sm_handle_def del: run.simps)
qed

lemma ortho_iteration:
  assumes "heap w r = Some (Orthogonal m h1 h2)" and "\<not> sm_interrupt m"
    and "run n execute h1 w = Returned w1" and "run n execute h2 w1 = Returned w2"
    and "\<not> stopped w2" and "queue w2 = e # es"
    and "get_sm w2 h1 = Some a" and "get_sm w2 r = Some m2"
  shows "run (Suc n) execute r w =
         (if ev_id e \<in> sm_eventSet a then run n execute r w2
          else if sm_parent m2 \<noteq> None then Returned w2
          else run n execute r (w2\<lparr>queue := es, trace := trace w2 @ [CannotHandle r e]\<rparr>))"
proof -
  have front: "addFront e (w2\<lparr>queue := es\<rparr>) = w2"
    by (rule world.equality) (simp_all add: addFront_def assms(6))
  have g: "get_sm (w2\<lparr>queue := es\<rparr>) x = get_sm w2 x" for x
    by (simp add: get_sm_def)
  have route: "ortho_route (run n) r h1 e (w2\<lparr>queue := es\<rparr>) =
         (if ev_id e \<in> sm_eventSet a then run n execute r w2
          else if sm_parent m2 \<noteq> None then Returned w2
          else run n execute r (w2\<lparr>queue := es, trace := trace w2 @ [CannotHandle r e]\<rparr>))"
    using assms(7,8) by (simp add: ortho_route_def g front log_def)
  have "run (Suc n) execute r w = ortho_route (run n) r h1 e (w2\<lparr>queue := es\<rparr>)"
    using run_Orthogonal_execute [OF assms(1)] assms(2-6) get_sm_Orthogonal [OF assms(1)]
    by (simp add: ortho_execute_def then_do_def nextEvent_def)
  then show ?thesis using route by simp
qed

text \<open>
  The loop of the composite need not end: \<open>ev_close\<close> is among the events of A, but A is
  in state 10 and B in state 21, where neither has a transition for it. Each child takes it
  and puts it back, the composite takes it, finds it among the events of A and puts it back,
  and the next iteration is the same: every bound on the number of iterations is used up.
\<close>

lemma orthogonal_loop_need_not_end:
  "\<exists>w'. run n execute 0 ((ortho_world None (Some 10) (Some 21) [ev_close])\<lparr>trace := tr\<rparr>) =
          OutOfFuel w'"
proof (induction n arbitrary: tr)
  case 0
  show ?case by simp
next
  case (Suc n)
  let ?A = "hsmA\<lparr>sm_currentState := Some 10\<rparr>"
  let ?B = "hsmB\<lparr>sm_currentState := Some 21\<rparr>"
  let ?w = "(ortho_world None (Some 10) (Some 21) [ev_close])\<lparr>trace := tr\<rparr>"
  have obj: "heap ?w 0 = Some (Orthogonal (StateMachine_new None None None) 1 2)"
    by (simp add: ortho_world_def)
  show ?case
  proof (cases n)
    case 0
    then show ?thesis
      using obj by (simp add: dispatch_def ortho_execute_def get_sm_def machine_of_def
          StateMachine_new_def then_do_def)
  next
    case (Suc k)
    let ?w1 = "?w\<lparr>trace := trace ?w @ [Dequeued 1 ev_close]\<rparr>"
    let ?w2 = "?w1\<lparr>trace := trace ?w1 @ [Dequeued 2 ev_close]\<rparr>"
    have a: "run (Suc k) execute 1 ?w = Returned ?w1"
      by (rule sm_iteration_miss_parent [where m = ?A and cs = 10 and es = "[]"])
         (simp_all add: ortho_defs)
    have b: "run (Suc k) execute 2 ?w1 = Returned ?w2"
      by (rule sm_iteration_miss_parent [where m = ?B and cs = 21 and es = "[]"])
         (simp_all add: ortho_defs)
    have "run (Suc (Suc k)) execute 0 ?w =
          (if ev_id ev_close \<in> sm_eventSet ?A then run (Suc k) execute 0 ?w2
           else if sm_parent (StateMachine_new None None None :: nat StateMachine) \<noteq> None
           then Returned ?w2
           else run (Suc k) execute 0
                  (?w2\<lparr>queue := [], trace := trace ?w2 @ [CannotHandle 0 ev_close]\<rparr>))"
      by (rule ortho_iteration [OF obj _ a b])
         (simp_all add: ortho_world_def StateMachine_new_def get_sm_def machine_of_def)
    moreover have "ev_id ev_close \<in> sm_eventSet ?A" by (simp add: ortho_defs)
    ultimately have "run (Suc (Suc k)) execute 0 ?w = run (Suc k) execute 0 ?w2" by simp
    moreover have "?w2 = (ortho_world None (Some 10) (Some 21) [ev_close])
                           \<lparr>trace := tr @ [Dequeued 1 ev_close, Dequeued 2 ev_close]\<rparr>"
      by simp
    ultimately show ?thesis using Suc.IH [of "tr @ [Dequeued 1 ev_close, Dequeued 2 ev_close]"] Suc
      by simp
  qed
qed

text \<open>
  Claim C1, as the code has it. An iteration of \<^verbatim>\<open>OrthogonalHSM::execute\<close> first runs the loop
  of A and then the loop of B on the shared queue (each takes events until it meets one it
  has no transition for in its current state, which it puts back at the front). When both
  have returned, the composite takes the next event itself and looks at the events of A
  only: if the event's id is among them, the event goes back to the front and the next
  iteration starts, with A first; otherwise, also when the event is among the events of B,
  it is unhandled: back to the front and out of the loop when there is a parent, logged
  and dropped when there is none.
\<close>

theorem orthogonal_routing:
  assumes "heap w r = Some (Orthogonal m h1 h2)" and "\<not> sm_interrupt m"
    and "run n execute h1 w = Returned w1" and "run n execute h2 w1 = Returned w2"
    and "\<not> stopped w2" and "queue w2 = e # es"
    and "get_sm w2 h1 = Some a" and "get_sm w2 r = Some m2"
  shows "run (Suc n) execute r w =
         (if ev_id e \<in> sm_eventSet a then run n execute r w2
          else if sm_parent m2 \<noteq> None then Returned w2
          else run n execute r (w2\<lparr>queue := es, trace := trace w2 @ [CannotHandle r e]\<rparr>))"
  using assms by (rule ortho_iteration)

theorem orthogonal_routing_witness:
  "run (Suc (Suc 0)) execute 0 (ortho_world None (Some 10) (Some 21) [ev_close]) =
     run (Suc 0) execute 0
       ((ortho_world None (Some 10) (Some 21) [ev_close])
          \<lparr>trace := [Dequeued 1 ev_close, Dequeued 2 ev_close]\<rparr>) \<and>
   run (Suc (Suc 0)) execute 0 (ortho_world (Some 9) (Some 10) (Some 21) [ev_connect]) =
     Returned
       ((ortho_world (Some 9) (Some 10) (Some 21) [ev_connect])
          \<lparr>trace := [Dequeued 1 ev_connect, Dequeued 2 ev_connect]\<rparr>) \<and>
   run (Suc (Suc 0)) execute 0 (ortho_world None (Some 10) (Some 21) [ev_connect]) =
     run (Suc 0) execute 0
       ((ortho_world None (Some 10) (Some 21) [ev_connect])
          \<lparr>queue := [],
           trace := [Dequeued 1 ev_connect, Dequeued 2 ev_connect, CannotHandle 0 ev_connect]\<rparr>)"
proof -
  let ?A = "hsmA\<lparr>sm_currentState := Some 10\<rparr>"
  let ?B = "hsmB\<lparr>sm_currentState := Some 21\<rparr>"
  have children:
    "run (Suc 0) execute 1 (ortho_world p (Some 10) (Some 21) [e]) =
       Returned ((ortho_world p (Some 10) (Some 21) [e])\<lparr>trace := [Dequeued 1 e]\<rparr>) \<and>
     run (Suc 0) execute 2 ((ortho_world p (Some 10) (Some 21) [e])\<lparr>trace := [Dequeued 1 e]\<rparr>) =
       Returned ((ortho_world p (Some 10) (Some 21) [e])\<lparr>trace := [Dequeued 1 e, Dequeued 2 e]\<rparr>)"
    if "sm_next ?A (Some 10) e = None" "sm_next ?B (Some 21) e = None" for p e
  proof -
    let ?w = "ortho_world p (Some 10) (Some 21) [e]"
    let ?w1 = "?w\<lparr>trace := [Dequeued 1 e]\<rparr>"
    have "run (Suc 0) execute 1 ?w = Returned (?w\<lparr>trace := trace ?w @ [Dequeued 1 e]\<rparr>)"
      by (rule sm_iteration_miss_parent [where m = ?A and cs = 10 and es = "[]"])
         (simp_all add: that, simp_all add: ortho_defs)
    moreover
    have "run (Suc 0) execute 2 ?w1 = Returned (?w1\<lparr>trace := trace ?w1 @ [Dequeued 2 e]\<rparr>)"
      by (rule sm_iteration_miss_parent [where m = ?B and cs = 21 and es = "[]"])
         (simp_all add: that, simp_all add: ortho_defs)
    ultimately show ?thesis by (simp add: ortho_world_sel del: run.simps)
  qed
  have missA: "sm_next ?A (Some 10) ev_close = None" "sm_next ?A (Some 10) ev_connect = None"
    and missB: "sm_next ?B (Some 21) ev_close = None" "sm_next ?B (Some 21) ev_connect = None"
    by (simp_all add: ortho_defs)
  have obj: "heap (ortho_world p (Some 10) (Some 21) q) 0 =
               Some (Orthogonal (StateMachine_new None None p) 1 2)"
    "\<not> sm_interrupt (StateMachine_new None None p :: nat StateMachine)"
    "get_sm ((ortho_world p (Some 10) (Some 21) q)\<lparr>trace := tr\<rparr>) 1 = Some ?A"
    "get_sm ((ortho_world p (Some 10) (Some 21) q)\<lparr>trace := tr\<rparr>) 0 =
       Some (StateMachine_new None None p)"
    for p q tr
    by (simp_all add: ortho_world_def StateMachine_new_def get_sm_def machine_of_def)
  have sets: "ev_id ev_close \<in> sm_eventSet ?A" "ev_id ev_connect \<notin> sm_eventSet ?A"
    by (simp_all add: ortho_defs)
  have par: "sm_parent (StateMachine_new None None (Some 9) :: nat StateMachine) \<noteq> None"
    "sm_parent (StateMachine_new None None None :: nat StateMachine) = None"
    by (simp_all add: StateMachine_new_def)
  have a: "run (Suc (Suc 0)) execute 0 (ortho_world None (Some 10) (Some 21) [ev_close]) =
     run (Suc 0) execute 0
       ((ortho_world None (Some 10) (Some 21) [ev_close])
          \<lparr>trace := [Dequeued 1 ev_close, Dequeued 2 ev_close]\<rparr>)"
    using orthogonal_routing
      [OF obj(1,2) children [OF missA(1) missB(1), THEN conjunct1]
          children [OF missA(1) missB(1), THEN conjunct2] _ _ obj(3,4),
       where e = ev_close and es = "[]"]
      sets
    by (simp add: ortho_world_sel del: run.simps)
  have b: "run (Suc (Suc 0)) execute 0 (ortho_world (Some 9) (Some 10) (Some 21) [ev_connect]) =
     Returned
       ((ortho_world (Some 9) (Some 10) (Some 21) [ev_connect])
          \<lparr>trace := [Dequeued 1 ev_connect, Dequeued 2 ev_connect]\<rparr>)"
    using orthogonal_routing
      [OF obj(1,2) children [OF missA(2) missB(2), THEN conjunct1]
          children [OF missA(2) missB(2), THEN conjunct2] _ _ obj(3,4),
       where e = ev_connect and es = "[]"]
      sets par
    by (simp add: ortho_world_sel del: run.simps)
  have c: "run (Suc (Suc 0)) execute 0 (ortho_world None (Some 10) (Some 21) [ev_connect]) =
     run (Suc 0) execute 0
       ((ortho_world None (Some 10) (Some 21) [ev_connect])
          \<lparr>queue := [],
           trace := [Dequeued 1 ev_connect, Dequeued 2 ev_connect, CannotHandle 0 ev_connect]\<rparr>)"
    using orthogonal_routing
      [OF obj(1,2) children [OF missA(2) missB(2), THEN conjunct1]
          children [OF missA(2) missB(2), THEN conjunct2] _ _ obj(3,4),
       where e = ev_connect and es = "[]"]
      sets par
    by (simp add: ortho_world_sel del: run.simps)
  show ?thesis using a b c by blast
qed

text \<open>
  Claim C1 as stated fails. First run: \<open>ev_close\<close> is among the events of A and of B; A is
  in state 10, where it has no transition for it, so A takes it from the queue and puts it
  back, and B, in state 20, takes it next and makes its transition: the event has been
  handed to both, and it is B that consumes it. Second run: \<open>ev_connect\<close> is among the events
  of B and not of A; after both children have put it back, the composite does not hand it
  to B but drops it as unhandled.
\<close>

theorem orthogonal_routing_counterexample:
  "ev_id ev_close \<in> sm_eventSet hsmA \<and> ev_id ev_close \<in> sm_eventSet hsmB \<and>
   trace (world_of (run (Suc (Suc (Suc 0))) execute 0
                      (ortho_world None (Some 10) (Some 20) [ev_close]))) =
     [Dequeued 1 ev_close, Dequeued 2 ev_close, Exited 20, Entered 21,
      CurrentStateSet 2 (Some 21), Executed 21] \<and>
   ev_id ev_connect \<notin> sm_eventSet hsmA \<and> ev_id ev_connect \<in> sm_eventSet hsmB \<and>
   trace (world_of (run (Suc (Suc (Suc 0))) execute 0
                      (ortho_world None (Some 10) (Some 21) [ev_connect]))) =
     [Dequeued 1 ev_connect, Dequeued 2 ev_connect, CannotHandle 0 ev_connect]"
  by (simp add: ortho_defs run_defs)

section \<open>Events without a transition\<close>




end
